theory Spec2Isabelle
  imports Complex_Main "HOL-Library.Word"
begin

unbundle bit_operations_syntax

text \<open>
  The audio pipeline of \<^verbatim>\<open>reSpeaker_XVF3800_Diagnostic_App.py\<close>: device negotiation,
  the capture callback and its two bounded histories, the render tick, the pattern and
  envelope computations, and playback with its cancellation. The definitions come first,
  each one following the method it is named after; the properties follow.
\<close>

section \<open>Samples and bounded histories\<close>

text \<open>
  The capture callback receives signed 16-bit samples (\<^verbatim>\<open>np.frombuffer(in_data, dtype=np.int16)\<close>).
  A sample is a 16-bit word; \<open>sint\<close> reads it as two's complement.
\<close>

type_synonym int16 = "16 word"

text \<open>
  Both histories are \<^verbatim>\<open>collections.deque(maxlen=...)\<close>. A bounded deque appends on the
  right and, when that makes it longer than \<open>maxlen\<close>, drops one element on the left.
\<close>

record 'a deque =
  maxlen :: nat
  items :: "'a list"

definition deque_new :: "nat \<Rightarrow> 'a deque" where
  "deque_new n = \<lparr>maxlen = n, items = []\<rparr>"

definition deque_append :: "'a deque \<Rightarrow> 'a \<Rightarrow> 'a deque" where
  "deque_append d x =
     (let ys = items d @ [x]
      in d\<lparr>items := (if maxlen d < length ys then tl ys else ys)\<rparr>)"

definition deque_extend :: "'a deque \<Rightarrow> 'a list \<Rightarrow> 'a deque" where
  "deque_extend d xs = foldl deque_append d xs"

definition deque_clear :: "'a deque \<Rightarrow> 'a deque" where
  "deque_clear d = d\<lparr>items := []\<rparr>"

definition deque_ok :: "'a deque \<Rightarrow> bool" where
  "deque_ok d \<longleftrightarrow> length (items d) \<le> maxlen d"

section \<open>Analysis: pattern view and amplitude envelope\<close>

datatype py_error = ValueError | ZeroDivisionError

text \<open>
  \<^verbatim>\<open>xs[::step]\<close> takes the elements at indices \<open>0, step, 2 * step, ...\<close>; a step of zero
  raises \<^verbatim>\<open>ValueError\<close>.
\<close>

fun slice_from :: "nat \<Rightarrow> 'a list \<Rightarrow> 'a list" where
  "slice_from step [] = []"
| "slice_from step (x # xs) = x # slice_from step (drop (step - 1) xs)"

definition py_slice_step :: "nat \<Rightarrow> 'a list \<Rightarrow> py_error + 'a list" where
  "py_slice_step step xs = (if step = 0 then Inl ValueError else Inr (slice_from step xs))"

text \<open>
  Time coordinates are floating-point quotients \<^verbatim>\<open>index / sample_rate\<close>. The division is
  a parameter \<open>fdiv\<close> of the model, so that what is proved about the time axis holds for
  whatever the floating-point unit returns.
\<close>

definition np_arange_div :: "(nat \<Rightarrow> int \<Rightarrow> 'f) \<Rightarrow> nat \<Rightarrow> int \<Rightarrow> 'f list" where
  "np_arange_div fdiv n sample_rate = map (\<lambda>i. fdiv i sample_rate) [0..<n]"

text \<open>
  \<^verbatim>\<open>_plot_time_pattern\<close>: the series handed to the plot, \<open>None\<close> for the early return
  on fewer than 100 samples.
\<close>

definition plot_time_pattern ::
  "(nat \<Rightarrow> int \<Rightarrow> 'f) \<Rightarrow> int \<Rightarrow> int16 list \<Rightarrow> py_error + ('f list \<times> int16 list) option" where
  "plot_time_pattern fdiv sample_rate pattern_data =
     (if length pattern_data < 100 then Inr None
      else
        let time_axis = np_arange_div fdiv (length pattern_data) sample_rate in
        if 10000 < length pattern_data then
          (let step = length pattern_data div 10000 in
           case py_slice_step step pattern_data of
             Inl e \<Rightarrow> Inl e
           | Inr pattern_data' \<Rightarrow>
               (case py_slice_step step time_axis of
                  Inl e \<Rightarrow> Inl e
                | Inr time_axis' \<Rightarrow> Inr (Some (time_axis', pattern_data'))))
        else Inr (Some (time_axis, pattern_data)))"

text \<open>
  The envelope. A window is a Python list of \<^verbatim>\<open>np.int16\<close> scalars, so \<^verbatim>\<open>np.square\<close>
  converts it to an \<^verbatim>\<open>int16\<close> array and squares in 16 bits, with wrap-around.
  \<^verbatim>\<open>np.mean\<close> then accumulates in double precision and \<^verbatim>\<open>np.sqrt\<close> of a negative mean
  is NaN. The mean and the root are modelled over the reals (rounding left out), NaN as
  \<open>None\<close>.
\<close>

definition np_square :: "int16 list \<Rightarrow> int16 list" where
  "np_square a = map (\<lambda>x. x * x) a"

definition np_mean :: "int16 list \<Rightarrow> real" where
  "np_mean a = real_of_int (sum_list (map sint a)) / real (length a)"

definition np_sqrt :: "real \<Rightarrow> real option" where
  "np_sqrt x = (if x < 0 then None else Some (sqrt x))"

definition window_rms :: "int16 list \<Rightarrow> real option" where
  "window_rms window = np_sqrt (np_mean (np_square window))"

function envelope_loop ::
  "(nat \<Rightarrow> int \<Rightarrow> 'f) \<Rightarrow> int \<Rightarrow> int16 list \<Rightarrow> nat \<Rightarrow> real option list \<Rightarrow> 'f list
     \<Rightarrow> py_error + (real option list \<times> 'f list)" where
  "envelope_loop fdiv sample_rate pattern_data i envelope time_points =
     (if i < length pattern_data then
        (let window = take 1000 (drop i pattern_data) in
         if 0 < length window then
           (let rms = window_rms window in
            if sample_rate = 0 then Inl ZeroDivisionError
            else envelope_loop fdiv sample_rate pattern_data (i + 1000)
                   (envelope @ [rms]) (time_points @ [fdiv i sample_rate]))
         else envelope_loop fdiv sample_rate pattern_data (i + 1000) envelope time_points)
      else Inr (envelope, time_points))"
  by pat_completeness auto
termination
  by (relation "measure (\<lambda>(fdiv, sample_rate, pattern_data, i, envelope, time_points).
        length pattern_data - i)") auto

text \<open>
  \<^verbatim>\<open>_plot_amplitude_envelope\<close>: the \<open>(time_points, envelope)\<close> series that is drawn;
  \<open>None\<close> when nothing is drawn (fewer than 100 samples, or fewer than two windows).
\<close>

definition plot_amplitude_envelope ::
  "(nat \<Rightarrow> int \<Rightarrow> 'f) \<Rightarrow> int \<Rightarrow> int16 list \<Rightarrow> py_error + ('f list \<times> real option list) option" where
  "plot_amplitude_envelope fdiv sample_rate pattern_data =
     (if length pattern_data < 100 then Inr None
      else
        case envelope_loop fdiv sample_rate pattern_data 0 [] [] of
          Inl e \<Rightarrow> Inl e
        | Inr (envelope, time_points) \<Rightarrow>
            if 1 < length envelope then Inr (Some (time_points, envelope)) else Inr None)"

section \<open>The audio host\<close>

text \<open>
  What PortAudio answers is an input of the model: the description of each device, and
  whether a stream with given parameters opens (\<^verbatim>\<open>audio.open\<close> returns) or is refused
  (it raises). \<open>defaultSampleRate\<close> is a float in PyAudio; \<^verbatim>\<open>int(...)\<close> truncates it.
\<close>

record device_info =
  device_name :: string
  maxInputChannels :: int
  defaultSampleRate :: rat

record host =
  get_device_info_by_index :: "nat \<Rightarrow> device_info option"
  input_opens :: "nat \<Rightarrow> int \<Rightarrow> int \<Rightarrow> bool"
  default_output_device :: "nat option"
  output_opens :: "nat \<Rightarrow> int \<Rightarrow> int \<Rightarrow> bool"

definition py_int :: "rat \<Rightarrow> int" where
  "py_int r = (if 0 \<le> r then \<lfloor>r\<rfloor> else \<lceil>r\<rceil>)"

datatype direction = Input | Output

text \<open>An open stream: the PyAudio instance that owns it, its handle and its parameters.\<close>

record stream =
  owner :: nat
  sid :: nat
  direction :: direction
  stream_channels :: int
  stream_rate :: int

definition close_stream :: "nat \<Rightarrow> stream list \<Rightarrow> stream list" where
  "close_stream h ss = filter (\<lambda>st. sid st \<noteq> h) ss"

text \<open>\<^verbatim>\<open>PyAudio.terminate\<close> closes every stream the instance still has open.\<close>

definition terminate :: "nat \<Rightarrow> stream list \<Rightarrow> stream list" where
  "terminate a ss = filter (\<lambda>st. owner st \<noteq> a) ss"

section \<open>Device negotiation\<close>

text \<open>
  The probing at the head of \<^verbatim>\<open>start_listening\<close> and of \<^verbatim>\<open>start_recording\<close> (the
  same text in both). \<open>opens channels rate\<close> says whether the probe stream opens.
  The result is the \<open>(sample_rate, channels)\<close> the method goes on with, and the list of
  configurations probed, in the order they were tried.
\<close>

fun fallback_loop ::
  "(int \<Rightarrow> int \<Rightarrow> bool) \<Rightarrow> int list \<Rightarrow> int \<times> int \<Rightarrow> (int \<times> int) list
     \<Rightarrow> (int \<times> int) \<times> (int \<times> int) list" where
  "fallback_loop opens [] cfg probed = (cfg, probed)"
| "fallback_loop opens (fallback_rate # rest) cfg probed =
     (if opens 1 fallback_rate then ((fallback_rate, 1), probed @ [(fallback_rate, 1)])
      else fallback_loop opens rest cfg (probed @ [(fallback_rate, 1)]))"

definition negotiate ::
  "(int \<Rightarrow> int \<Rightarrow> bool) \<Rightarrow> device_info \<Rightarrow> int \<Rightarrow> int \<Rightarrow> (int \<times> int) \<times> (int \<times> int) list" where
  "negotiate opens info sample_rate channels =
     (if opens channels sample_rate then ((sample_rate, channels), [(sample_rate, channels)])
      else
        let sample_rate' = py_int (defaultSampleRate info);
            channels' = min (maxInputChannels info) 2
        in if opens channels' sample_rate'
           then ((sample_rate', channels'), [(sample_rate, channels), (sample_rate', channels')])
           else fallback_loop opens [44100, 48000, 16000, 8000] (sample_rate', channels')
                  [(sample_rate, channels), (sample_rate', channels')])"

text \<open>
  The order the specification gives: the requested pair, the device's own default, then
  the four fallback rates at one channel.
\<close>

definition spec_candidates :: "device_info \<Rightarrow> int \<Rightarrow> int \<Rightarrow> (int \<times> int) list" where
  "spec_candidates info sample_rate channels =
     [(sample_rate, channels),
      (py_int (defaultSampleRate info), min (maxInputChannels info) 2),
      (44100, 1), (48000, 1), (16000, 1), (8000, 1)]"

section \<open>The application object\<close>

datatype messagebox = ShowError string | ShowWarning string

datatype callback = UpdateVisualization | PlaybackFinished

text \<open>Where the playback thread stands in \<^verbatim>\<open>_playback_thread\<close>.\<close>

datatype pc = Begin | Check nat | Write nat | Finish | Exited

text \<open>
  The attributes of \<^verbatim>\<open>XVF3800DiagnosticApp\<close> that capture, playback and the render tick
  use. Widgets and status texts are left out, and a message box is the value a method
  returns. The last six fields are not attributes: they are the streams PortAudio has
  open, the next unused handle (for PyAudio instances and streams alike), the callbacks
  Tk has pending from \<^verbatim>\<open>root.after\<close>, the position of the playback thread started
  last and its local \<^verbatim>\<open>audio_bytes\<close>, and the chunks the output device has received.
\<close>

record app =
  audio_listening :: bool
  audio_recording :: bool
  audio_playing :: bool
  audio :: "nat option"
  audio_stream :: "nat option"
  audio_data_queue :: "int16 list list"
  audio_buffer :: "int16 deque"
  recording_start_time :: "rat option"
  time_pattern_buffer :: "int16 deque"
  pattern_start_time :: "rat option"
  selected_device_index :: "nat option"
  sample_rate_var :: int
  channels_var :: int
  playback_audio :: "nat option"
  playback_stream :: "nat option"
  open_streams :: "stream list"
  fresh :: nat
  after_queue :: "callback list"
  thread_pc :: pc
  thread_bytes :: "8 word list"
  device_out :: "8 word list list"

text \<open>\<^verbatim>\<open>__init__\<close>, with the device the user has selected.\<close>

definition app_init :: "nat option \<Rightarrow> app" where
  "app_init selected =
     \<lparr>audio_listening = False, audio_recording = False, audio_playing = False,
      audio = None, audio_stream = None, audio_data_queue = [],
      audio_buffer = deque_new 10000, recording_start_time = None,
      time_pattern_buffer = deque_new 50000, pattern_start_time = None,
      selected_device_index = selected, sample_rate_var = 16000, channels_var = 2,
      playback_audio = None, playback_stream = None,
      open_streams = [], fresh = 0, after_queue = [],
      thread_pc = Exited, thread_bytes = [], device_out = []\<rparr>"

text \<open>Both histories within their capacities, which are those of \<^verbatim>\<open>__init__\<close>.\<close>

definition histories_ok :: "app \<Rightarrow> bool" where
  "histories_ok s \<longleftrightarrow>
     deque_ok (audio_buffer s) \<and> maxlen (audio_buffer s) = 10000
     \<and> deque_ok (time_pattern_buffer s) \<and> maxlen (time_pattern_buffer s) = 50000"

subsection \<open>Capture callback and render tick\<close>

definition audio_callback :: "rat \<Rightarrow> int16 list \<Rightarrow> app \<Rightarrow> app" where
  "audio_callback now audio_data s =
     (if audio_recording s \<or> audio_listening s then
        s\<lparr>audio_data_queue := audio_data_queue s @ [audio_data],
          time_pattern_buffer := deque_extend (time_pattern_buffer s) audio_data,
          pattern_start_time :=
            (case pattern_start_time s of None \<Rightarrow> Some now | Some t \<Rightarrow> Some t)\<rparr>
      else s)"

text \<open>The driver calling back with one frame after another, each at its own time.\<close>

fun deliver :: "(rat \<times> int16 list) list \<Rightarrow> app \<Rightarrow> app" where
  "deliver [] s = s"
| "deliver ((now, audio_data) # frames) s = deliver frames (audio_callback now audio_data s)"

text \<open>The loop that empties the hand-off queue into the short-term history.\<close>

fun drain :: "int16 list list \<Rightarrow> int16 deque \<Rightarrow> int16 deque" where
  "drain [] buf = buf"
| "drain (audio_data # queue) buf = drain queue (deque_extend buf audio_data)"

text \<open>
  \<^verbatim>\<open>update_visualization\<close>. The three plot calls draw and change no attribute, and an
  exception in them is caught before the rescheduling test, so only the drain and the
  rescheduling appear here.
\<close>

definition update_visualization :: "app \<Rightarrow> app" where
  "update_visualization s =
     (if \<not> (audio_recording s \<or> audio_listening s) then s
      else
        let s1 = s\<lparr>audio_buffer := drain (audio_data_queue s) (audio_buffer s),
                   audio_data_queue := []\<rparr>
        in if audio_recording s1 \<or> audio_listening s1
           then s1\<lparr>after_queue := after_queue s1 @ [UpdateVisualization]\<rparr>
           else s1)"

subsection \<open>Starting and stopping capture\<close>

text \<open>
  Lines 666 to 740 of \<^verbatim>\<open>start_listening\<close> and 779 to 853 of \<^verbatim>\<open>start_recording\<close>:
  a new PyAudio instance, the device check, the negotiation, and the opening of the
  callback stream. An exception anywhere is caught by the method and shown in a message
  box; what was assigned before it stays assigned.
\<close>

definition open_capture :: "host \<Rightarrow> string \<Rightarrow> app \<Rightarrow> messagebox option \<times> app" where
  "open_capture h failed s0 =
     (let a = fresh s0;
          s = s0\<lparr>audio := Some a, fresh := a + 1\<rparr>
      in case selected_device_index s of
           None \<Rightarrow> (Some (ShowError ''No audio device selected!''), s)
         | Some device_index \<Rightarrow>
             (case get_device_info_by_index h device_index of
                None \<Rightarrow> (Some (ShowError failed), s)
              | Some info \<Rightarrow>
                  let cfg = fst (negotiate (input_opens h device_index) info
                                   (sample_rate_var s) (channels_var s));
                      s1 = s\<lparr>sample_rate_var := fst cfg, channels_var := snd cfg\<rparr>
                  in if input_opens h device_index (snd cfg) (fst cfg)
                     then (None,
                           s1\<lparr>audio_stream := Some (fresh s1),
                              open_streams := open_streams s1 @
                                [\<lparr>owner = a, sid = fresh s1, direction = Input,
                                  stream_channels = snd cfg, stream_rate = fst cfg\<rparr>],
                              fresh := fresh s1 + 1\<rparr>)
                     else (Some (ShowError failed), s1)))"

definition start_listening :: "host \<Rightarrow> app \<Rightarrow> messagebox option \<times> app" where
  "start_listening h s =
     (case open_capture h ''Failed to start listening'' s of
        (Some m, s1) \<Rightarrow> (Some m, s1)
      | (None, s1) \<Rightarrow> (None, update_visualization (s1\<lparr>audio_listening := True\<rparr>)))"

definition start_recording :: "host \<Rightarrow> rat \<Rightarrow> app \<Rightarrow> messagebox option \<times> app" where
  "start_recording h now s =
     (case open_capture h ''Failed to start recording'' s of
        (Some m, s1) \<Rightarrow> (Some m, s1)
      | (None, s1) \<Rightarrow>
          (None, update_visualization
                   (s1\<lparr>audio_recording := True, recording_start_time := Some now\<rparr>)))"

text \<open>The part \<^verbatim>\<open>stop_listening\<close> and \<^verbatim>\<open>stop_recording\<close> begin with.\<close>

definition release_capture :: "app \<Rightarrow> app" where
  "release_capture s =
     (let s1 = (case audio_stream s of
                  None \<Rightarrow> s
                | Some st \<Rightarrow> s\<lparr>open_streams := close_stream st (open_streams s),
                               audio_stream := None\<rparr>)
      in case audio s1 of
           None \<Rightarrow> s1
         | Some a \<Rightarrow> s1\<lparr>open_streams := terminate a (open_streams s1)\<rparr>)"

definition stop_listening :: "app \<Rightarrow> app" where
  "stop_listening s =
     (release_capture s)
       \<lparr>audio_listening := False,
        time_pattern_buffer := deque_clear (time_pattern_buffer s),
        pattern_start_time := None\<rparr>"

definition stop_recording :: "app \<Rightarrow> app" where
  "stop_recording s =
     (release_capture s)\<lparr>audio_recording := False, recording_start_time := None\<rparr>"

definition toggle_listening :: "host \<Rightarrow> app \<Rightarrow> messagebox option \<times> app" where
  "toggle_listening h s =
     (if audio_listening s then (None, stop_listening s) else start_listening h s)"

definition toggle_recording :: "host \<Rightarrow> rat \<Rightarrow> app \<Rightarrow> messagebox option \<times> app" where
  "toggle_recording h now s =
     (if \<not> audio_recording s then start_recording h now s else (None, stop_recording s))"

subsection \<open>Playback\<close>

text \<open>\<^verbatim>\<open>ndarray.tobytes\<close> of an \<^verbatim>\<open>int16\<close> array: two bytes a sample, low byte first.\<close>

definition tobytes :: "int16 list \<Rightarrow> 8 word list" where
  "tobytes a = concat (map (\<lambda>w. [ucast w, ucast (drop_bit 8 w)]) a)"

text \<open>
  \<^verbatim>\<open>start_playback\<close>, run from its first line to its last with no step of the playback
  thread in between. The thread is created at \<open>Begin\<close>. The two parts of the method,
  before and after \<^verbatim>\<open>playback_thread.start()\<close>, follow further down.
\<close>

definition start_playback :: "host \<Rightarrow> app \<Rightarrow> messagebox option \<times> app" where
  "start_playback h s =
     (if length (items (audio_buffer s)) = 0
      then (Some (ShowWarning ''No audio recorded to play back!''), s)
      else
        let a = fresh s;
            s1 = s\<lparr>playback_audio := Some a, fresh := a + 1\<rparr>
        in case default_output_device h of
             None \<Rightarrow> (Some (ShowError ''Failed to start playback''), s1)
           | Some output_device \<Rightarrow>
               if output_opens h output_device 1 16000
               then (None,
                     s1\<lparr>playback_stream := Some (fresh s1),
                        open_streams := open_streams s1 @
                          [\<lparr>owner = a, sid = fresh s1, direction = Output,
                            stream_channels = 1, stream_rate = 16000\<rparr>],
                        fresh := fresh s1 + 1,
                        thread_pc := Begin,
                        audio_playing := True\<rparr>)
               else (Some (ShowError ''Failed to start playback''), s1))"

definition stop_playback :: "app \<Rightarrow> app" where
  "stop_playback s =
     (let s1 = s\<lparr>audio_playing := False\<rparr>;
          s2 = (case playback_stream s1 of
                  None \<Rightarrow> s1
                | Some st \<Rightarrow> s1\<lparr>open_streams := close_stream st (open_streams s1),
                                playback_stream := None\<rparr>)
      in case playback_audio s2 of
           None \<Rightarrow> s2
         | Some a \<Rightarrow> s2\<lparr>open_streams := terminate a (open_streams s2),
                        playback_audio := None\<rparr>)"

definition toggle_playback :: "host \<Rightarrow> app \<Rightarrow> messagebox option \<times> app" where
  "toggle_playback h s =
     (if audio_playing s then (None, stop_playback s) else start_playback h s)"

definition playback_finished :: "app \<Rightarrow> app" where
  "playback_finished s = s\<lparr>audio_playing := False\<rparr>"

text \<open>
  One step of \<^verbatim>\<open>_playback_thread\<close>: reading the clip, the test of the flag at the head
  of an iteration, the write of the chunk at byte offset \<open>i\<close>, and the scheduling of
  \<^verbatim>\<open>_playback_finished\<close>, which both the normal end and the exception handler do.
  A write on a stream that is gone or closed raises.
\<close>

definition thread_step :: "app \<Rightarrow> app" where
  "thread_step s =
     (case thread_pc s of
        Begin \<Rightarrow> s\<lparr>thread_bytes := tobytes (items (audio_buffer s)), thread_pc := Check 0\<rparr>
      | Check i \<Rightarrow>
          if i < length (thread_bytes s) then
            (if \<not> audio_playing s then s\<lparr>thread_pc := Finish\<rparr>
             else s\<lparr>thread_pc := Write i\<rparr>)
          else s\<lparr>thread_pc := Finish\<rparr>
      | Write i \<Rightarrow>
          (let chunk = take (1024 * 2) (drop i (thread_bytes s)) in
           if 0 < length chunk then
             (case playback_stream s of
                None \<Rightarrow> s\<lparr>thread_pc := Finish\<rparr>
              | Some st \<Rightarrow>
                  if st \<in> sid ` set (open_streams s)
                  then s\<lparr>device_out := device_out s @ [chunk],
                         thread_pc := Check (i + 1024 * 2)\<rparr>
                  else s\<lparr>thread_pc := Finish\<rparr>)
           else s\<lparr>thread_pc := Check (i + 1024 * 2)\<rparr>)
      | Finish \<Rightarrow> s\<lparr>after_queue := after_queue s @ [PlaybackFinished], thread_pc := Exited\<rparr>
      | Exited \<Rightarrow> s)"

subsection \<open>The playback thread running beside the main thread\<close>

text \<open>
  Nothing synchronises the playback thread with the methods of the main thread, so a step
  of the thread can fall between any two statements of \<^verbatim>\<open>start_playback\<close> after the
  thread is started, and of \<^verbatim>\<open>stop_playback\<close>. The statements that matter are taken one
  by one.

  \<^verbatim>\<open>start_playback\<close> up to and including \<^verbatim>\<open>playback_thread.start()\<close>: the playing flag is
  not set yet.
\<close>

definition start_playback_thread :: "host \<Rightarrow> app \<Rightarrow> messagebox option \<times> app" where
  "start_playback_thread h s =
     (if length (items (audio_buffer s)) = 0
      then (Some (ShowWarning ''No audio recorded to play back!''), s)
      else
        let a = fresh s;
            s1 = s\<lparr>playback_audio := Some a, fresh := a + 1\<rparr>
        in case default_output_device h of
             None \<Rightarrow> (Some (ShowError ''Failed to start playback''), s1)
           | Some output_device \<Rightarrow>
               if output_opens h output_device 1 16000
               then (None,
                     s1\<lparr>playback_stream := Some (fresh s1),
                        open_streams := open_streams s1 @
                          [\<lparr>owner = a, sid = fresh s1, direction = Output,
                            stream_channels = 1, stream_rate = 16000\<rparr>],
                        fresh := fresh s1 + 1,
                        thread_pc := Begin\<rparr>)
               else (Some (ShowError ''Failed to start playback''), s1))"

text \<open>The statement after it: \<^verbatim>\<open>self.audio_playing = True\<close>.\<close>

definition start_playback_flag :: "app \<Rightarrow> app" where
  "start_playback_flag s = s\<lparr>audio_playing := True\<rparr>"

text \<open>
  \<^verbatim>\<open>stop_playback\<close> in four parts: the flag is cleared; the stream is stopped and closed
  (from \<^verbatim>\<open>stop_stream()\<close> on it takes no write); the attribute is set to \<^verbatim>\<open>None\<close>; the
  PyAudio instance is terminated and its attribute cleared.
\<close>

definition stop_flag :: "app \<Rightarrow> app" where
  "stop_flag s = s\<lparr>audio_playing := False\<rparr>"

definition stop_close :: "app \<Rightarrow> app" where
  "stop_close s =
     (case playback_stream s of
        None \<Rightarrow> s
      | Some st \<Rightarrow> s\<lparr>open_streams := close_stream st (open_streams s)\<rparr>)"

definition stop_clear :: "app \<Rightarrow> app" where
  "stop_clear s =
     (case playback_stream s of
        None \<Rightarrow> s
      | Some st \<Rightarrow> s\<lparr>playback_stream := None\<rparr>)"

definition stop_terminate :: "app \<Rightarrow> app" where
  "stop_terminate s =
     (case playback_audio s of
        None \<Rightarrow> s
      | Some a \<Rightarrow> s\<lparr>open_streams := terminate a (open_streams s), playback_audio := None\<rparr>)"

text \<open>
  The state in which the user asks for the stop: the thread has taken \<open>p\<close> steps before
  the main thread set the playing flag and \<open>q\<close> steps after. No other handler of the main
  thread is run in between.
\<close>

definition playing_after :: "nat \<Rightarrow> nat \<Rightarrow> app \<Rightarrow> app" where
  "playing_after p q s = (thread_step ^^ q) (start_playback_flag ((thread_step ^^ p) s))"

text \<open>
  \<^verbatim>\<open>stop_playback\<close> with the thread running beside it: \<open>a\<close> steps of the thread after
  the flag is cleared, \<open>b\<close> after the stream is closed, \<open>c\<close> after the attribute is
  cleared, \<open>d\<close> after the instance is terminated. The main thread keeps its statements
  in order, so these four numbers describe every interleaving.
\<close>

definition stop_interleaved :: "nat \<Rightarrow> nat \<Rightarrow> nat \<Rightarrow> nat \<Rightarrow> app \<Rightarrow> app" where
  "stop_interleaved a b c d s =
     (thread_step ^^ d) (stop_terminate
       ((thread_step ^^ c) (stop_clear
         ((thread_step ^^ b) (stop_close
           ((thread_step ^^ a) (stop_flag s)))))))"

text \<open>
  A thread that will not write again: it has left its loop, or the flag is down and, where
  it stands between the test and the write, the stream is gone or closed.
\<close>

definition silent :: "app \<Rightarrow> bool" where
  "silent s \<longleftrightarrow>
     thread_pc s = Finish \<or> thread_pc s = Exited
     \<or> (\<not> audio_playing s
        \<and> (\<forall>i. thread_pc s = Write i \<longrightarrow>
              (case playback_stream s of
                 None \<Rightarrow> True
               | Some st \<Rightarrow> st \<notin> sid ` set (open_streams s))))"

text \<open>An upper bound on the steps the thread still takes once the flag is down.\<close>

fun steps_left :: "pc \<Rightarrow> nat" where
  "steps_left Begin = 3"
| "steps_left (Write i) = 3"
| "steps_left (Check i) = 2"
| "steps_left Finish = 1"
| "steps_left Exited = 0"

text \<open>A thread that has exited has asked Tk for \<^verbatim>\<open>_playback_finished\<close>.\<close>

definition handed_over :: "app \<Rightarrow> bool" where
  "handed_over s \<longleftrightarrow> (thread_pc s = Exited \<longrightarrow> PlaybackFinished \<in> set (after_queue s))"

subsection \<open>The Tk event loop\<close>

fun run_callback :: "callback \<Rightarrow> app \<Rightarrow> app" where
  "run_callback UpdateVisualization s = update_visualization s"
| "run_callback PlaybackFinished s = playback_finished s"

text \<open>Tk takes the oldest pending callback off its queue and runs it.\<close>

definition tk_fire :: "app \<Rightarrow> app" where
  "tk_fire s =
     (case after_queue s of
        [] \<Rightarrow> s
      | c # rest \<Rightarrow> run_callback c (s\<lparr>after_queue := rest\<rparr>))"

subsection \<open>Saving the clip\<close>


text \<open>
  The chunks of a clip, as the specification counts them: consecutive pieces of 1024
  samples (2048 bytes), the last one possibly shorter.
\<close>

definition clip_chunks :: "8 word list \<Rightarrow> 8 word list list" where
  "clip_chunks bytes =
     map (\<lambda>j. take 2048 (drop (2048 * j) bytes)) [0..<(length bytes + 2047) div 2048]"

section \<open>A sample device\<close>

text \<open>
  A host with one input device, number 0, that takes 48000 Hz at one or two channels and
  nothing else, and an output device, number 1, that takes every format.
\<close>

definition demo_info :: device_info where
  "demo_info = \<lparr>device_name = ''mic'', maxInputChannels = 4, defaultSampleRate = 48000\<rparr>"

definition demo_host :: host where
  "demo_host =
     \<lparr>get_device_info_by_index = (\<lambda>i. if i = 0 then Some demo_info else None),
      input_opens = (\<lambda>i c r. i = 0 \<and> r = 48000 \<and> (c = 1 \<or> c = 2)),
      default_output_device = Some 1,
      output_opens = (\<lambda>i c r. True)\<rparr>"

text \<open>
  A session on that host: the user presses LISTEN, the driver delivers one frame, the
  render tick fires; then the user presses RECORD.
\<close>

definition listening_demo :: app where
  "listening_demo = snd (toggle_listening demo_host (app_init (Some 0)))"

definition listened_demo :: app where
  "listened_demo = tk_fire (audio_callback 0 [7, 8] listening_demo)"

definition recording_demo :: "messagebox option \<times> app" where
  "recording_demo = toggle_recording demo_host 1 listened_demo"

text \<open>The same session with a clip of 3000 samples, which makes three chunks.\<close>

definition clip_demo :: app where
  "clip_demo = listened_demo\<lparr>audio_buffer := \<lparr>maxlen = 10000, items = replicate 3000 5\<rparr>\<rparr>"

section \<open>The specification's single-session rule\<close>

text \<open>The specification wants at most one input stream open at any time.\<close>

definition spec_single_capture :: "app \<Rightarrow> bool" where
  "spec_single_capture s \<longleftrightarrow>
     length (filter (\<lambda>st. direction st = Input) (open_streams s)) \<le> 1"

section \<open>A sample session, evaluated\<close>

lemmas demo_defs = listening_demo_def listened_demo_def recording_demo_def
  toggle_listening_def toggle_recording_def start_listening_def start_recording_def
  open_capture_def negotiate_def demo_host_def demo_info_def app_init_def py_int_def Let_def
  update_visualization_def audio_callback_def tk_fire_def deque_new_def deque_extend_def
  deque_append_def

lemma listened_demo_eval:
  "listened_demo =
     \<lparr>audio_listening = True, audio_recording = False, audio_playing = False,
      audio = Some 0, audio_stream = Some 1, audio_data_queue = [],
      audio_buffer = \<lparr>maxlen = 10000, items = [7, 8]\<rparr>, recording_start_time = None,
      time_pattern_buffer = \<lparr>maxlen = 50000, items = [7, 8]\<rparr>, pattern_start_time = Some 0,
      selected_device_index = Some 0, sample_rate_var = 48000, channels_var = 2,
      playback_audio = None, playback_stream = None,
      open_streams = [\<lparr>owner = 0, sid = 1, direction = Input,
                        stream_channels = 2, stream_rate = 48000\<rparr>],
      fresh = 2, after_queue = [UpdateVisualization],
      thread_pc = Exited, thread_bytes = [], device_out = []\<rparr>"
  by (simp add: demo_defs)

section \<open>Bounded histories keep the newest samples\<close>

lemma maxlen_deque_append: "maxlen (deque_append d x) = maxlen d"
  by (simp add: deque_append_def Let_def)

lemma maxlen_deque_extend: "maxlen (deque_extend d xs) = maxlen d"
  unfolding deque_extend_def
  by (induction xs arbitrary: d) (simp_all add: maxlen_deque_append)

lemma items_deque_append:
  "deque_ok d \<Longrightarrow>
   items (deque_append d x) = drop (length (items d) + 1 - maxlen d) (items d @ [x])"
proof (cases "length (items d) = maxlen d")
  case True
  then have k: "length (items d) + 1 - maxlen d = Suc 0" by simp
  have "items (deque_append d x) = tl (items d @ [x])"
    using True by (simp add: deque_append_def Let_def)
  also have "\<dots> = drop (Suc 0) (items d @ [x])"
    by (simp only: drop_Suc drop_0)
  finally show ?thesis by (simp only: k)
next
  case False
  assume "deque_ok d"
  with False have "length (items d) < maxlen d" by (simp add: deque_ok_def)
  then show ?thesis
    by (simp add: deque_append_def Let_def)
qed

lemma deque_ok_append: "deque_ok d \<Longrightarrow> deque_ok (deque_append d x)"
  by (auto simp: deque_append_def deque_ok_def Let_def)

lemma deque_ok_extend: "deque_ok d \<Longrightarrow> deque_ok (deque_extend d xs)"
  unfolding deque_extend_def
  by (induction xs arbitrary: d) (simp_all add: deque_ok_append)

lemma items_deque_extend:
  "deque_ok d \<Longrightarrow>
   items (deque_extend d xs) = drop (length (items d) + length xs - maxlen d) (items d @ xs)"
proof (induction xs arbitrary: d)
  case Nil
  then show ?case by (simp add: deque_extend_def deque_ok_def)
next
  case (Cons x xs)
  let ?e = "deque_append d x"
  have ok: "deque_ok ?e" using Cons.prems by (rule deque_ok_append)
  have it: "items ?e = drop (length (items d) + 1 - maxlen d) (items d @ [x])"
    using Cons.prems by (rule items_deque_append)
  have le: "length (items d) + 1 - maxlen d \<le> length (items d @ [x])" by simp
  have "items (deque_extend d (x # xs)) = items (deque_extend ?e xs)"
    by (simp add: deque_extend_def)
  also have "\<dots> = drop (length (items ?e) + length xs - maxlen ?e) (items ?e @ xs)"
    using ok by (rule Cons.IH)
  also have "\<dots> = drop (length (items d) + length (x # xs) - maxlen d) (items d @ x # xs)"
  proof -
    let ?k = "length (items d) + 1 - maxlen d"
    have k: "?k \<le> 1" using Cons.prems by (simp add: deque_ok_def)
    have len: "length (items ?e) = length (items d) + 1 - ?k" by (simp add: it)
    have "drop ?k ((items d @ [x]) @ xs) = drop ?k (items d @ [x]) @ xs"
      using le by (simp only: drop_append diff_is_0_eq' drop_0)
    then have app: "items ?e @ xs = drop ?k (items d @ x # xs)"
      by (simp add: it)
    have "drop (length (items ?e) + length xs - maxlen ?e) (items ?e @ xs)
          = drop (length (items d) + 1 - ?k + length xs - maxlen d + ?k) (items d @ x # xs)"
      by (simp only: len app maxlen_deque_append drop_drop)
    moreover have "length (items d) + 1 - ?k + length xs - maxlen d + ?k
          = length (items d) + length (x # xs) - maxlen d"
      using k Cons.prems by (auto simp: deque_ok_def)
    ultimately show ?thesis by simp
  qed
  finally show ?case .
qed

lemma update_visualization_frame:
  "sample_rate_var (update_visualization s) = sample_rate_var s"
  "channels_var (update_visualization s) = channels_var s"
  "open_streams (update_visualization s) = open_streams s"
  "audio_stream (update_visualization s) = audio_stream s"
  "audio_recording (update_visualization s) = audio_recording s"
  "audio_listening (update_visualization s) = audio_listening s"
  "time_pattern_buffer (update_visualization s) = time_pattern_buffer s"
  "pattern_start_time (update_visualization s) = pattern_start_time s"
  by (simp_all add: update_visualization_def Let_def)

lemma deque_extend_append:
  "deque_extend (deque_extend d xs) ys = deque_extend d (xs @ ys)"
  by (simp add: deque_extend_def)

lemma drain_concat: "drain queue buf = deque_extend buf (concat queue)"
  by (induction queue arbitrary: buf) (simp_all add: deque_extend_def)

lemma deliver_active:
  assumes "audio_recording s \<or> audio_listening s"
  shows "time_pattern_buffer (deliver frames s)
           = deque_extend (time_pattern_buffer s) (concat (map snd frames))
         \<and> audio_data_queue (deliver frames s) = audio_data_queue s @ map snd frames
         \<and> audio_buffer (deliver frames s) = audio_buffer s
         \<and> audio_recording (deliver frames s) = audio_recording s
         \<and> audio_listening (deliver frames s) = audio_listening s"
  using assms
proof (induction frames arbitrary: s)
  case Nil
  show ?case by (simp add: deque_extend_def)
next
  case (Cons f frames)
  obtain now audio_data where f: "f = (now, audio_data)" by (cases f)
  let ?s1 = "audio_callback now audio_data s"
  have s1: "time_pattern_buffer ?s1 = deque_extend (time_pattern_buffer s) audio_data"
    "audio_data_queue ?s1 = audio_data_queue s @ [audio_data]"
    "audio_buffer ?s1 = audio_buffer s"
    "audio_recording ?s1 = audio_recording s" "audio_listening ?s1 = audio_listening s"
    using Cons.prems by (auto simp: audio_callback_def)
  have "audio_recording ?s1 \<or> audio_listening ?s1" using Cons.prems s1 by simp
  from Cons.IH [OF this] show ?case
    by (simp add: f s1 deque_extend_append)
qed

lemma update_visualization_drains:
  assumes "audio_recording s \<or> audio_listening s"
  shows "audio_buffer (update_visualization s)
           = deque_extend (audio_buffer s) (concat (audio_data_queue s))"
  using assms by (auto simp: update_visualization_def Let_def drain_concat)

lemma last_samples:
  assumes "deque_ok d" and "maxlen d < length xs"
  shows "items (deque_extend d xs) = drop (length xs - maxlen d) xs"
proof -
  have "items (deque_extend d xs)
        = drop (length (items d) + length xs - maxlen d) (items d @ xs)"
    using assms(1) by (rule items_deque_extend)
  also have "\<dots> = drop (length xs - maxlen d) xs"
    using assms(2) by simp
  finally show ?thesis .
qed

text \<open>
  Claim C3. A history of capacity \<open>C\<close> that receives \<open>C + 1\<close> or more samples holds exactly
  the last \<open>C\<close> of them, oldest first; no sequence of pushes makes it longer than \<open>C\<close>,
  and the capacity never changes. In the application the capacities are 10000 and 50000
  from \<^verbatim>\<open>__init__\<close> on: when the driver has delivered more than 50000 samples during a
  capture the long-term history holds the last 50000, and after the render tick has
  drained more than 10000 samples the short-term history holds the last 10000.
\<close>

theorem ring_overwrite_keeps_last:
  "(deque_ok d \<longrightarrow>
      (maxlen d < length xs \<longrightarrow>
         items (deque_extend d xs) = drop (length xs - maxlen d) xs
         \<and> length (items (deque_extend d xs)) = maxlen d)
      \<and> length (items (deque_extend d ys)) \<le> maxlen d
      \<and> maxlen (deque_extend d ys) = maxlen d)
   \<and> histories_ok (app_init selected)
   \<and> (histories_ok s \<and> (audio_recording s \<or> audio_listening s) \<and> audio_data_queue s = []
       \<longrightarrow> (let samples = concat (map snd frames);
                 s' = update_visualization (deliver frames s)
             in histories_ok s'
                \<and> (50000 < length samples \<longrightarrow>
                     items (time_pattern_buffer s') = drop (length samples - 50000) samples)
                \<and> (10000 < length samples \<longrightarrow>
                     items (audio_buffer s') = drop (length samples - 10000) samples)))"
proof (intro conjI impI)
  assume ok: "deque_ok d" and big: "maxlen d < length xs"
  show *: "items (deque_extend d xs) = drop (length xs - maxlen d) xs"
    using ok big by (rule last_samples)
  show "length (items (deque_extend d xs)) = maxlen d"
    using big by (simp add: *)
next
  assume ok: "deque_ok d"
  show "length (items (deque_extend d ys)) \<le> maxlen d"
    using deque_ok_extend [OF ok, of ys] by (simp add: deque_ok_def maxlen_deque_extend)
  show "maxlen (deque_extend d ys) = maxlen d"
    by (rule maxlen_deque_extend)
next
  show "histories_ok (app_init selected)"
    by (simp add: histories_ok_def app_init_def deque_new_def deque_ok_def)
next
  assume a: "histories_ok s \<and> (audio_recording s \<or> audio_listening s) \<and> audio_data_queue s = []"
  define samples where "samples = concat (map snd frames)"
  define s1 where "s1 = deliver frames s"
  have act: "audio_recording s \<or> audio_listening s" using a by simp
  have d: "time_pattern_buffer s1 = deque_extend (time_pattern_buffer s) samples"
    "audio_data_queue s1 = map snd frames" "audio_buffer s1 = audio_buffer s"
    "audio_recording s1 \<or> audio_listening s1"
    using deliver_active [OF act, of frames] a by (simp_all add: s1_def samples_def)
  have long: "time_pattern_buffer (update_visualization s1)
      = deque_extend (time_pattern_buffer s) samples"
    by (simp add: update_visualization_frame d)
  have short: "audio_buffer (update_visualization s1) = deque_extend (audio_buffer s) samples"
    using update_visualization_drains [OF d(4)] by (simp add: d samples_def)
  have ok: "deque_ok (audio_buffer s)" "maxlen (audio_buffer s) = 10000"
    "deque_ok (time_pattern_buffer s)" "maxlen (time_pattern_buffer s) = 50000"
    using a by (simp_all add: histories_ok_def)
  have 1: "histories_ok (update_visualization s1)"
    using ok by (simp add: histories_ok_def long short deque_ok_extend maxlen_deque_extend)
  have 2: "items (time_pattern_buffer (update_visualization s1))
        = drop (length samples - 50000) samples" if "50000 < length samples"
    using last_samples [OF ok(3), of samples] that by (simp add: long ok)
  have 3: "items (audio_buffer (update_visualization s1))
        = drop (length samples - 10000) samples" if "10000 < length samples"
    using last_samples [OF ok(1), of samples] that by (simp add: short ok)
  show "let samples = concat (map snd frames);
            s' = update_visualization (deliver frames s)
        in histories_ok s'
           \<and> (50000 < length samples \<longrightarrow>
                items (time_pattern_buffer s') = drop (length samples - 50000) samples)
           \<and> (10000 < length samples \<longrightarrow>
                items (audio_buffer s') = drop (length samples - 10000) samples)"
    unfolding Let_def samples_def [symmetric] s1_def [symmetric]
    using 1 2 3 by simp
qed

theorem ring_overwrite_keeps_last_witness:
  "deque_ok (deque_new 3 :: nat deque)
   \<and> maxlen (deque_new 3 :: nat deque) < length [1, 2, 3, 4 :: nat]
   \<and> items (deque_extend (deque_new 3) [1, 2, 3, 4 :: nat]) = [2, 3, 4]
   \<and> histories_ok listening_demo \<and> audio_listening listening_demo
   \<and> audio_data_queue listening_demo = []
   \<and> 50000 < length (concat (map snd [(0, replicate 50001 (1 :: int16)), (1, [2])]))
   \<and> items (time_pattern_buffer
        (update_visualization (deliver [(0, replicate 50001 1), (1, [2])] listening_demo)))
      = replicate 49999 1 @ [2]
   \<and> items (audio_buffer
        (update_visualization (deliver [(0, replicate 50001 1), (1, [2])] listening_demo)))
      = replicate 9999 1 @ [2]"
proof -
  have l: "histories_ok listening_demo \<and> audio_listening listening_demo
      \<and> audio_data_queue listening_demo = []"
    by (simp add: demo_defs histories_ok_def deque_ok_def)
  have r: "drop 2 (replicate 50001 (1 :: int16)) = replicate 49999 1"
    "drop 40002 (replicate 50001 (1 :: int16)) = replicate 9999 1"
    by simp_all
  show ?thesis
    using ring_overwrite_keeps_last [of "deque_new 3 :: nat deque" "[1, 2, 3, 4]" "[]" None listening_demo
        "[(0, replicate 50001 1), (1, [2])]"] l
    by (simp add: deque_new_def deque_ok_def Let_def r)
qed

section \<open>Decimation of the pattern view\<close>

lemma length_slice_from:
  "0 < step \<Longrightarrow> length (slice_from step xs) = (length xs + step - 1) div step"
proof (induction step xs rule: slice_from.induct)
  case (1 step)
  then show ?case by simp
next
  case (2 step x xs)
  show ?case
  proof (cases "step - 1 \<le> length xs")
    case True
    have IH: "length (slice_from step (drop (step - 1) xs))
          = (length (drop (step - 1) xs) + step - 1) div step"
      using 2(2) by (rule 2(1))
    have e: "length (x # xs) + step - 1 = (length (drop (step - 1) xs) + step - 1) + step"
      using True 2(2) by simp
    have d: "(length (x # xs) + step - 1) div step
          = (length (drop (step - 1) xs) + step - 1) div step + 1"
      using 2(2) by (simp only: e div_add_self2 neq0_conv [symmetric] not_False_eq_True)
    have "length (slice_from step (x # xs)) = length (slice_from step (drop (step - 1) xs)) + 1"
      by simp
    also have "\<dots> = (length (drop (step - 1) xs) + step - 1) div step + 1"
      by (simp only: IH)
    also have "\<dots> = (length (x # xs) + step - 1) div step"
      by (simp only: d)
    finally show ?thesis .
  next
    case False
    then have "length xs < step" by simp
    then have "(length (x # xs) + step - 1) div step = 1"
      using 2(2) by (simp add: div_eq_0_iff Suc_le_eq flip: Suc_eq_plus1)
    then show ?thesis using False 2 by simp
  qed
qed

lemma nth_slice_from:
  "0 < step \<Longrightarrow> k < length (slice_from step xs) \<Longrightarrow> slice_from step xs ! k = xs ! (k * step)"
proof (induction step xs arbitrary: k rule: slice_from.induct)
  case (1 step)
  then show ?case by simp
next
  case (2 step x xs)
  show ?case
  proof (cases k)
    case 0
    then show ?thesis by simp
  next
    case (Suc j)
    with 2 have j: "j < length (slice_from step (drop (step - 1) xs))" by simp
    then have "drop (step - 1) xs \<noteq> []" by auto
    then have le: "step - 1 \<le> length xs" by simp
    have "slice_from step (x # xs) ! k = drop (step - 1) xs ! (j * step)"
      using 2(1) [OF 2(2) j] Suc by simp
    also have "\<dots> = xs ! (step - 1 + j * step)"
      using le by simp
    also have "\<dots> = (x # xs) ! Suc (step - 1 + j * step)"
      by simp
    also have "Suc (step - 1 + j * step) = k * step"
      using 2(2) Suc by simp
    finally show ?thesis .
  qed
qed

lemma stride_index_in_range:
  fixes L step k :: nat
  assumes "0 < step" and "k < (L + step - 1) div step"
  shows "k * step < L"
proof -
  have "Suc k \<le> (L + step - 1) div step" using assms(2) by simp
  then have "Suc k * step \<le> (L + step - 1) div step * step" by (rule mult_le_mono1)
  also have "\<dots> \<le> L + step - 1" by simp
  finally show ?thesis using assms(1) by simp
qed

lemma slice_from_eq_map:
  assumes "0 < step"
  shows "slice_from step xs = map (\<lambda>k. xs ! (k * step)) [0..<(length xs + step - 1) div step]"
  by (rule nth_equalityI) (simp_all add: length_slice_from nth_slice_from assms)

lemma slice_time_axis:
  assumes "0 < step"
  shows "slice_from step (np_arange_div fdiv L sample_rate)
         = map (\<lambda>k. fdiv (k * step) sample_rate) [0..<(L + step - 1) div step]"
proof -
  have "slice_from step (np_arange_div fdiv L sample_rate)
        = map (\<lambda>k. np_arange_div fdiv L sample_rate ! (k * step)) [0..<(L + step - 1) div step]"
    using slice_from_eq_map [OF assms, of "np_arange_div fdiv L sample_rate"]
    by (simp add: np_arange_div_def)
  also have "\<dots> = map (\<lambda>k. fdiv (k * step) sample_rate) [0..<(L + step - 1) div step]"
    using stride_index_in_range [OF assms]
    by (simp add: np_arange_div_def)
  finally show ?thesis .
qed

lemma ceil_div:
  fixes L step :: nat
  assumes "0 < step"
  shows "int ((L + step - 1) div step) = \<lceil>rat_of_nat L / rat_of_nat step\<rceil>"
proof -
  define n where "n = (L + step - 1) div step"
  have up: "L \<le> n * step"
  proof -
    have "L + step - 1 = n * step + (L + step - 1) mod step"
      by (simp add: n_def)
    moreover have "(L + step - 1) mod step \<le> step - 1"
      using assms by (simp add: Suc_leI less_Suc_eq_le [symmetric])
    ultimately show ?thesis using assms by linarith
  qed
  have lo: "n * step < L + step"
  proof -
    have "n * step \<le> L + step - 1" by (simp add: n_def)
    then show ?thesis using assms by linarith
  qed
  have "rat_of_nat L / rat_of_nat step \<le> of_int (int n)"
    using assms up by (simp add: pos_divide_le_eq flip: of_nat_mult)
  moreover have "of_int (int n) - 1 < rat_of_nat L / rat_of_nat step"
  proof -
    have "rat_of_nat (n * step) < rat_of_nat (L + step)" using lo by (simp only: of_nat_less_iff)
    then have "(rat_of_nat n - 1) * rat_of_nat step < rat_of_nat L"
      by (simp add: algebra_simps)
    then show ?thesis using assms by (simp add: pos_less_divide_eq)
  qed
  ultimately have "\<lceil>rat_of_nat L / rat_of_nat step\<rceil> = int n"
    by (intro ceiling_unique) auto
  then show ?thesis by (simp add: n_def)
qed

text \<open>
  Claim C4. A pattern series longer than the display budget of 10000 points is decimated
  with the stride \<open>length div 10000\<close>: point \<open>k\<close> of the output is sample \<open>k * stride\<close> of
  the series, at the time coordinate of index \<open>k * stride\<close>, and there are
  \<open>\<lceil>length / stride\<rceil>\<close> points. No \<^verbatim>\<open>ValueError\<close> arises: the stride is positive.
\<close>

theorem pattern_decimation_stride:
  "10000 < length pattern_data \<Longrightarrow>
     (let step = length pattern_data div 10000;
          n = nat \<lceil>rat_of_nat (length pattern_data) / rat_of_nat step\<rceil>
      in 0 < step
         \<and> plot_time_pattern fdiv sample_rate pattern_data =
             Inr (Some (map (\<lambda>k. fdiv (k * step) sample_rate) [0..<n],
                        map (\<lambda>k. pattern_data ! (k * step)) [0..<n])))"
proof -
  assume big: "10000 < length pattern_data"
  define step where "step = length pattern_data div 10000"
  have pos: "0 < step"
    using big by (simp add: step_def div_greater_zero_iff)
  have n: "nat \<lceil>rat_of_nat (length pattern_data) / rat_of_nat step\<rceil>
           = (length pattern_data + step - 1) div step"
    using ceil_div [OF pos, of "length pattern_data", symmetric] by simp
  have "plot_time_pattern fdiv sample_rate pattern_data =
          Inr (Some (slice_from step (np_arange_div fdiv (length pattern_data) sample_rate),
                     slice_from step pattern_data))"
    using big pos by (simp add: plot_time_pattern_def py_slice_step_def Let_def step_def)
  then show ?thesis
    using pos
    by (simp only: Let_def step_def [symmetric] n slice_time_axis [OF pos]
        slice_from_eq_map [OF pos, symmetric] simp_thms)
qed

theorem pattern_decimation_stride_witness:
  "10000 < length (replicate 25000 (3 :: int16))
   \<and> plot_time_pattern (\<lambda>i r. (i, r)) 16000 (replicate 25000 3)
       = Inr (Some (map (\<lambda>k. (k * 2, 16000)) [0..<12500],
                    map (\<lambda>k. replicate 25000 3 ! (k * 2)) [0..<12500]))"
  using pattern_decimation_stride [of "replicate 25000 (3 :: int16)" "\<lambda>i r. (i, r)" 16000]
  by (simp add: Let_def)

section \<open>The amplitude envelope\<close>

text \<open>
  Silence gives the value 0, and a window whose samples all have magnitude at most 181
  gives the root mean square: there no square leaves the 16-bit range.
\<close>

lemma window_rms_silence: "window_rms (replicate n 0) = Some 0"
  by (simp add: window_rms_def np_square_def np_mean_def np_sqrt_def sum_list_replicate)

lemma sint_square_small:
  fixes x :: int16
  assumes "\<bar>sint x\<bar> \<le> 181"
  shows "sint (x * x) = sint x * sint x"
proof -
  have "sint x * sint x = \<bar>sint x\<bar> * \<bar>sint x\<bar>" by (simp add: abs_mult_self_eq)
  also have "\<dots> \<le> 181 * 181"
    using assms by (intro mult_mono) simp_all
  finally have up: "sint x * sint x \<le> 32761" by simp
  have lo: "0 \<le> sint x * sint x" by simp
  have "sint (x * x) = signed_take_bit 15 (sint x * sint x)"
    by (simp add: sint_word_ariths)
  also have "\<dots> = sint x * sint x"
  proof (rule signed_take_bit_int_eq_self)
    have "- (2 ^ 15) \<le> (0 :: int)" by simp
    then show "- (2 ^ 15) \<le> sint x * sint x" using lo by (rule order_trans)
    have "(32761 :: int) < 2 ^ 15" by simp
    with up show "sint x * sint x < 2 ^ 15" by (rule le_less_trans)
  qed
  finally show ?thesis .
qed

lemma window_rms_small:
  assumes "\<forall>x \<in> set window. \<bar>sint x\<bar> \<le> 181"
  shows "window_rms window
         = Some (sqrt (real_of_int (\<Sum>x\<leftarrow>window. sint x * sint x) / real (length window)))"
proof -
  have sq: "map sint (np_square window) = map (\<lambda>x. sint x * sint x) window"
    using assms by (simp add: np_square_def sint_square_small)
  have len: "length (np_square window) = length window"
    by (simp add: np_square_def)
  have m: "np_mean (np_square window)
      = real_of_int (\<Sum>x\<leftarrow>window. sint x * sint x) / real (length window)"
    by (simp only: np_mean_def sq len)
  have "0 \<le> (\<Sum>x\<leftarrow>window. sint x * sint x)"
    by (rule sum_list_nonneg) auto
  then have "0 \<le> np_mean (np_square window)"
    by (simp add: m)
  then show ?thesis
    by (simp add: window_rms_def np_sqrt_def m)
qed

text \<open>
  Claim C1. The envelope is meant to be the root mean square of each window. The squares
  are taken in 16 bits, so they wrap around for every sample of magnitude 182 or more:
  a window of constant amplitude 256 gives the value 0, and one of constant amplitude 200
  gives NaN (the mean of the wrapped squares is -25536).
\<close>

theorem envelope_squares_wrap_around:
  "window_rms (replicate 1000 256) = Some 0
   \<and> window_rms (replicate 1000 200) = None
   \<and> plot_amplitude_envelope fdiv 16000 (replicate 2000 256)
       = Inr (Some ([fdiv 0 16000, fdiv 1000 16000], [Some 0, Some 0]))
   \<and> plot_amplitude_envelope fdiv 16000 (replicate 2000 200)
       = Inr (Some ([fdiv 0 16000, fdiv 1000 16000], [None, None]))"
  by (simp add: plot_amplitude_envelope_def envelope_loop.simps window_rms_def np_square_def
      np_mean_def np_sqrt_def sum_list_replicate Let_def)

section \<open>Negotiation\<close>

lemma negotiate_find:
  "negotiate opens info sr ch =
     (case find (\<lambda>(r, c). opens c r) (spec_candidates info sr ch) of
        Some cfg \<Rightarrow>
          (cfg, takeWhile (\<lambda>(r, c). \<not> opens c r) (spec_candidates info sr ch) @ [cfg])
      | None \<Rightarrow>
          ((py_int (defaultSampleRate info), min (maxInputChannels info) 2),
           spec_candidates info sr ch))"
  by (simp add: negotiate_def spec_candidates_def Let_def)

lemma open_capture_vars:
  assumes "selected_device_index s = Some i" and "get_device_info_by_index h i = Some info"
  shows "sample_rate_var (snd (open_capture h msg s))
           = fst (fst (negotiate (input_opens h i) info (sample_rate_var s) (channels_var s)))"
    and "channels_var (snd (open_capture h msg s))
           = snd (fst (negotiate (input_opens h i) info (sample_rate_var s) (channels_var s)))"
  using assms by (simp_all add: open_capture_def Let_def)

lemma open_capture_stream:
  assumes "selected_device_index s = Some i" and "get_device_info_by_index h i = Some info"
    and "cfg = fst (negotiate (input_opens h i) info (sample_rate_var s) (channels_var s))"
    and "input_opens h i (snd cfg) (fst cfg)"
  shows "open_capture h msg s =
           (None, s\<lparr>audio := Some (fresh s), audio_stream := Some (fresh s + 1),
                    sample_rate_var := fst cfg, channels_var := snd cfg,
                    open_streams := open_streams s @
                      [\<lparr>owner = fresh s, sid = fresh s + 1, direction = Input,
                        stream_channels = snd cfg, stream_rate = fst cfg\<rparr>],
                    fresh := fresh s + 2\<rparr>)"
  using assms by (simp add: open_capture_def Let_def)


text \<open>
  Claim C2. Negotiation settles on the first configuration, in the order requested pair,
  device default, 44100, 48000, 16000, 8000 Hz at one channel, whose probe stream opens,
  and probes nothing after it. A device that refuses the requested pair and takes its own
  default gets its default, in \<^verbatim>\<open>start_listening\<close> and in \<^verbatim>\<open>start_recording\<close> alike,
  and the capture stream is opened with it. When no probe opens, the methods go on with
  the device default.
\<close>

theorem negotiation_first_success_wins:
  "(let dflt = (py_int (defaultSampleRate info), min (maxInputChannels info) 2);
        candidates = spec_candidates info sample_rate channels
    in negotiate opens info sample_rate channels =
         (case find (\<lambda>(r, c). opens c r) candidates of
            Some cfg \<Rightarrow> (cfg, takeWhile (\<lambda>(r, c). \<not> opens c r) candidates @ [cfg])
          | None \<Rightarrow> (dflt, candidates))
       \<and> (\<not> opens channels sample_rate \<and> opens (snd dflt) (fst dflt) \<longrightarrow>
            fst (negotiate opens info sample_rate channels) = dflt))
   \<and> (let dflt = (py_int (defaultSampleRate info), min (maxInputChannels info) 2)
      in selected_device_index s = Some i \<and> get_device_info_by_index h i = Some info
         \<and> \<not> input_opens h i (channels_var s) (sample_rate_var s)
         \<and> input_opens h i (snd dflt) (fst dflt) \<longrightarrow>
         (\<forall>s' \<in> {snd (start_listening h s), snd (start_recording h now s)}.
            sample_rate_var s' = fst dflt \<and> channels_var s' = snd dflt
            \<and> audio_stream s' = Some (fresh s + 1)
            \<and> last (open_streams s') =
                 \<lparr>owner = fresh s, sid = fresh s + 1, direction = Input,
                  stream_channels = snd dflt, stream_rate = fst dflt\<rparr>))"
proof -
  let ?dflt = "(py_int (defaultSampleRate info), min (maxInputChannels info) 2)"
  have first: "\<not> opens channels sample_rate \<Longrightarrow> opens (snd ?dflt) (fst ?dflt) \<Longrightarrow>
      fst (negotiate opens info sample_rate channels) = ?dflt" for opens sample_rate channels
    by (simp add: negotiate_def Let_def)
  have capture: "open_capture h msg s =
      (None, s\<lparr>audio := Some (fresh s), audio_stream := Some (fresh s + 1),
               sample_rate_var := fst ?dflt, channels_var := snd ?dflt,
               open_streams := open_streams s @
                 [\<lparr>owner = fresh s, sid = fresh s + 1, direction = Input,
                   stream_channels = snd ?dflt, stream_rate = fst ?dflt\<rparr>],
               fresh := fresh s + 2\<rparr>)"
    if "selected_device_index s = Some i" "get_device_info_by_index h i = Some info"
      "\<not> input_opens h i (channels_var s) (sample_rate_var s)"
      "input_opens h i (snd ?dflt) (fst ?dflt)" for msg
  proof -
    have "fst (negotiate (input_opens h i) info (sample_rate_var s) (channels_var s)) = ?dflt"
      using that(3,4) by (rule first)
    then show ?thesis
      using open_capture_stream [OF that(1,2) refl, of msg] that(4) by simp
  qed
  show ?thesis
    unfolding Let_def
    apply (intro conjI impI)
      apply (simp only: negotiate_find)
     apply (erule conjE, erule (1) first)
    apply (elim conjE)
    apply (simp add: start_listening_def start_recording_def capture update_visualization_frame)
    done
qed

theorem negotiation_first_success_wins_witness:
  "selected_device_index (app_init (Some 0)) = Some 0
   \<and> get_device_info_by_index demo_host 0 = Some demo_info
   \<and> \<not> input_opens demo_host 0 2 16000
   \<and> input_opens demo_host 0 2 48000 \<and> input_opens demo_host 0 1 48000
   \<and> negotiate (input_opens demo_host 0) demo_info 16000 2
       = ((48000, 2), [(16000, 2), (48000, 2)])
   \<and> sample_rate_var (snd (start_listening demo_host (app_init (Some 0)))) = 48000
   \<and> channels_var (snd (start_recording demo_host 0 (app_init (Some 0)))) = 2"
  using negotiation_first_success_wins
    [of demo_info 16000 2 "input_opens demo_host 0" "app_init (Some 0)" 0 demo_host 0]
  by (simp add: Let_def demo_host_def demo_info_def app_init_def spec_candidates_def py_int_def)

section \<open>The render tick\<close>

lemma update_visualization_idle:
  "\<not> audio_recording s \<Longrightarrow> \<not> audio_listening s \<Longrightarrow> update_visualization s = s"
  by (simp add: update_visualization_def)

lemma update_visualization_active:
  "audio_recording s \<or> audio_listening s \<Longrightarrow>
   after_queue (update_visualization s) = after_queue s @ [UpdateVisualization]"
  by (auto simp: update_visualization_def Let_def)

lemma tk_fire_idle:
  assumes "\<not> audio_recording s" and "\<not> audio_listening s"
  shows "\<not> audio_recording (tk_fire s) \<and> \<not> audio_listening (tk_fire s)
         \<and> length (after_queue (tk_fire s)) = length (after_queue s) - 1"
proof (cases "after_queue s")
  case Nil
  then show ?thesis using assms by (simp add: tk_fire_def)
next
  case (Cons c rest)
  then show ?thesis
    using assms by (cases c) (simp_all add: tk_fire_def update_visualization_idle playback_finished_def)
qed

lemma tk_fire_idle_funpow:
  "\<not> audio_recording s \<Longrightarrow> \<not> audio_listening s \<Longrightarrow>
   \<not> audio_recording ((tk_fire ^^ n) s) \<and> \<not> audio_listening ((tk_fire ^^ n) s)
   \<and> length (after_queue ((tk_fire ^^ n) s)) = length (after_queue s) - n"
proof (induction n)
  case 0
  then show ?case by simp
next
  case (Suc n)
  then have IH: "\<not> audio_recording ((tk_fire ^^ n) s)" "\<not> audio_listening ((tk_fire ^^ n) s)"
    "length (after_queue ((tk_fire ^^ n) s)) = length (after_queue s) - n"
    by simp_all
  show ?case
    using tk_fire_idle [OF IH(1,2)] IH(3) by simp
qed

text \<open>
  Claim C8. A render tick that finds a capture active puts exactly one further tick on
  Tk's queue. A tick that finds neither listening nor recording active changes nothing and
  schedules nothing; from then on every firing shortens the queue by one, so the pending
  callbacks run out after as many firings as there were callbacks.
\<close>

theorem render_tick_only_while_active:
  "(audio_recording s \<or> audio_listening s \<longrightarrow>
      after_queue (update_visualization s) = after_queue s @ [UpdateVisualization])
   \<and> (\<not> audio_recording s \<and> \<not> audio_listening s \<longrightarrow>
        update_visualization s = s
        \<and> (\<forall>n. length (after_queue ((tk_fire ^^ n) s)) = length (after_queue s) - n)
        \<and> after_queue ((tk_fire ^^ length (after_queue s)) s) = [])"
proof (intro conjI impI allI)
  assume "audio_recording s \<or> audio_listening s"
  then show "after_queue (update_visualization s) = after_queue s @ [UpdateVisualization]"
    by (rule update_visualization_active)
next
  assume idle: "\<not> audio_recording s \<and> \<not> audio_listening s"
  show "update_visualization s = s"
    using idle by (simp add: update_visualization_idle)
  show "length (after_queue ((tk_fire ^^ n) s)) = length (after_queue s) - n" for n
    using idle tk_fire_idle_funpow [of s n] by simp
  show "after_queue ((tk_fire ^^ length (after_queue s)) s) = []"
    using idle tk_fire_idle_funpow [of s "length (after_queue s)"] by simp
qed

theorem render_tick_only_while_active_witness:
  "audio_listening ((app_init None)\<lparr>audio_listening := True\<rparr>)
   \<and> after_queue (update_visualization ((app_init None)\<lparr>audio_listening := True\<rparr>))
       = [UpdateVisualization]
   \<and> \<not> audio_recording ((app_init None)\<lparr>after_queue := [UpdateVisualization, UpdateVisualization]\<rparr>)
   \<and> \<not> audio_listening ((app_init None)\<lparr>after_queue := [UpdateVisualization, UpdateVisualization]\<rparr>)
   \<and> after_queue ((tk_fire ^^ 2)
         ((app_init None)\<lparr>after_queue := [UpdateVisualization, UpdateVisualization]\<rparr>)) = []"
  using render_tick_only_while_active [of "(app_init None)\<lparr>audio_listening := True\<rparr>"]
    render_tick_only_while_active
      [of "(app_init None)\<lparr>after_queue := [UpdateVisualization, UpdateVisualization]\<rparr>"]
  by (simp add: app_init_def numeral_2_eq_2)

section \<open>Stopping capture\<close>

lemma release_capture_frame:
  "audio_buffer (release_capture s) = audio_buffer s"
  "time_pattern_buffer (release_capture s) = time_pattern_buffer s"
  "pattern_start_time (release_capture s) = pattern_start_time s"
  "audio_listening (release_capture s) = audio_listening s"
  "audio_recording (release_capture s) = audio_recording s"
  by (simp_all add: release_capture_def Let_def split: option.splits)

lemma release_capture_streams:
  "set (open_streams (release_capture s)) \<subseteq> set (open_streams s)"
  by (auto simp: release_capture_def Let_def close_stream_def terminate_def split: option.splits)

text \<open>
  Claim C9, as amended. Neither \<^verbatim>\<open>stop_listening\<close> nor \<^verbatim>\<open>stop_recording\<close> touches the
  short-term history. \<^verbatim>\<open>stop_listening\<close> empties the long-term history and resets its start
  time; \<^verbatim>\<open>stop_recording\<close> leaves both as they were.
\<close>

theorem stop_keeps_short_term_history:
  "audio_buffer (stop_listening s) = audio_buffer s
   \<and> audio_buffer (stop_recording s) = audio_buffer s
   \<and> items (time_pattern_buffer (stop_listening s)) = []
   \<and> pattern_start_time (stop_listening s) = None
   \<and> time_pattern_buffer (stop_recording s) = time_pattern_buffer s
   \<and> pattern_start_time (stop_recording s) = pattern_start_time s"
  by (simp add: stop_listening_def stop_recording_def release_capture_frame deque_clear_def)

text \<open>
  Claim C9 as stated fails: in the sample session the short-term history holds the two
  samples of the frame after the user stops listening, and after \<^verbatim>\<open>stop_recording\<close>.
\<close>

theorem stop_keeps_samples_counterexample:
  "audio_listening listened_demo
   \<and> items (audio_buffer (snd (toggle_listening demo_host listened_demo))) = [7, 8]
   \<and> items (audio_buffer (stop_recording listened_demo)) = [7, 8]"
  by (simp add: listened_demo_eval toggle_listening_def stop_listening_def stop_recording_def
      release_capture_def close_stream_def terminate_def Let_def)

section \<open>Starting a capture while another is streaming\<close>

lemma release_capture_closes:
  "audio_stream (release_capture s) = None"
  "\<forall>st. audio_stream s = Some st \<longrightarrow> st \<notin> sid ` set (open_streams (release_capture s))"
  "\<forall>a. audio s = Some a \<longrightarrow> a \<notin> owner ` set (open_streams (release_capture s))"
  by (auto simp: release_capture_def Let_def close_stream_def terminate_def
      split: option.splits)

text \<open>
  Claim C5, as amended. Each toggle looks at the flag of its own mode only. With the flag
  set it stops that mode: the flag goes down and the other mode's flag stays as it was,
  the stream attribute is cleared, the stream it named and every stream of the current
  PyAudio instance are closed, and no stream is opened. With the flag clear it starts the
  mode, whatever the other mode is doing: given a selected device whose negotiated
  configuration opens, the start succeeds, sets the flag, and the stream attribute is the
  new, open stream.
\<close>

theorem toggles_test_only_their_own_flag:
  "(audio_listening s \<longrightarrow>
      toggle_listening h s = (None, stop_listening s)
      \<and> (let s' = snd (toggle_listening h s)
         in \<not> audio_listening s' \<and> audio_recording s' = audio_recording s
            \<and> audio_stream s' = None
            \<and> (\<forall>st. audio_stream s = Some st \<longrightarrow> st \<notin> sid ` set (open_streams s'))
            \<and> (\<forall>a. audio s = Some a \<longrightarrow> a \<notin> owner ` set (open_streams s'))
            \<and> set (open_streams s') \<subseteq> set (open_streams s)))
   \<and> (audio_recording s \<longrightarrow>
      toggle_recording h now s = (None, stop_recording s)
      \<and> (let s' = snd (toggle_recording h now s)
         in \<not> audio_recording s' \<and> audio_listening s' = audio_listening s
            \<and> audio_stream s' = None
            \<and> (\<forall>st. audio_stream s = Some st \<longrightarrow> st \<notin> sid ` set (open_streams s'))
            \<and> (\<forall>a. audio s = Some a \<longrightarrow> a \<notin> owner ` set (open_streams s'))
            \<and> set (open_streams s') \<subseteq> set (open_streams s)))
   \<and> (selected_device_index s = Some i \<and> get_device_info_by_index h i = Some info
       \<and> cfg = fst (negotiate (input_opens h i) info (sample_rate_var s) (channels_var s))
       \<and> input_opens h i (snd cfg) (fst cfg) \<longrightarrow>
       (\<not> audio_recording s \<longrightarrow>
          fst (toggle_recording h now s) = None
          \<and> audio_recording (snd (toggle_recording h now s))
          \<and> audio_stream (snd (toggle_recording h now s)) = Some (fresh s + 1)
          \<and> fresh s + 1 \<in> sid ` set (open_streams (snd (toggle_recording h now s))))
       \<and> (\<not> audio_listening s \<longrightarrow>
          fst (toggle_listening h s) = None
          \<and> audio_listening (snd (toggle_listening h s))
          \<and> audio_stream (snd (toggle_listening h s)) = Some (fresh s + 1)
          \<and> fresh s + 1 \<in> sid ` set (open_streams (snd (toggle_listening h s)))))"
proof -
  have rel: "audio_stream (release_capture s) = None"
    "\<forall>st. audio_stream s = Some st \<longrightarrow> st \<notin> sid ` set (open_streams (release_capture s))"
    "\<forall>a. audio s = Some a \<longrightarrow> a \<notin> owner ` set (open_streams (release_capture s))"
    "set (open_streams (release_capture s)) \<subseteq> set (open_streams s)"
    by (rule release_capture_closes release_capture_streams)+
  have stop_l: "audio_listening s \<longrightarrow>
      toggle_listening h s = (None, stop_listening s)
      \<and> (let s' = snd (toggle_listening h s)
         in \<not> audio_listening s' \<and> audio_recording s' = audio_recording s
            \<and> audio_stream s' = None
            \<and> (\<forall>st. audio_stream s = Some st \<longrightarrow> st \<notin> sid ` set (open_streams s'))
            \<and> (\<forall>a. audio s = Some a \<longrightarrow> a \<notin> owner ` set (open_streams s'))
            \<and> set (open_streams s') \<subseteq> set (open_streams s))"
    using rel by (simp add: toggle_listening_def stop_listening_def release_capture_frame)
  have stop_r: "audio_recording s \<longrightarrow>
      toggle_recording h now s = (None, stop_recording s)
      \<and> (let s' = snd (toggle_recording h now s)
         in \<not> audio_recording s' \<and> audio_listening s' = audio_listening s
            \<and> audio_stream s' = None
            \<and> (\<forall>st. audio_stream s = Some st \<longrightarrow> st \<notin> sid ` set (open_streams s'))
            \<and> (\<forall>a. audio s = Some a \<longrightarrow> a \<notin> owner ` set (open_streams s'))
            \<and> set (open_streams s') \<subseteq> set (open_streams s))"
    using rel by (simp add: toggle_recording_def stop_recording_def release_capture_frame)
  have start: "(selected_device_index s = Some i \<and> get_device_info_by_index h i = Some info
       \<and> cfg = fst (negotiate (input_opens h i) info (sample_rate_var s) (channels_var s))
       \<and> input_opens h i (snd cfg) (fst cfg) \<longrightarrow>
       (\<not> audio_recording s \<longrightarrow>
          fst (toggle_recording h now s) = None
          \<and> audio_recording (snd (toggle_recording h now s))
          \<and> audio_stream (snd (toggle_recording h now s)) = Some (fresh s + 1)
          \<and> fresh s + 1 \<in> sid ` set (open_streams (snd (toggle_recording h now s))))
       \<and> (\<not> audio_listening s \<longrightarrow>
          fst (toggle_listening h s) = None
          \<and> audio_listening (snd (toggle_listening h s))
          \<and> audio_stream (snd (toggle_listening h s)) = Some (fresh s + 1)
          \<and> fresh s + 1 \<in> sid ` set (open_streams (snd (toggle_listening h s)))))"
  proof (intro conjI impI)
    assume dev: "selected_device_index s = Some i \<and> get_device_info_by_index h i = Some info
         \<and> cfg = fst (negotiate (input_opens h i) info (sample_rate_var s) (channels_var s))
         \<and> input_opens h i (snd cfg) (fst cfg)"
    then have d: "selected_device_index s = Some i" "get_device_info_by_index h i = Some info"
      "cfg = fst (negotiate (input_opens h i) info (sample_rate_var s) (channels_var s))"
      "input_opens h i (snd cfg) (fst cfg)"
      by blast+
    have cap: "open_capture h msg s =
             (None, s\<lparr>audio := Some (fresh s), audio_stream := Some (fresh s + 1),
                      sample_rate_var := fst cfg, channels_var := snd cfg,
                      open_streams := open_streams s @
                        [\<lparr>owner = fresh s, sid = fresh s + 1, direction = Input,
                          stream_channels = snd cfg, stream_rate = fst cfg\<rparr>],
                      fresh := fresh s + 2\<rparr>)" for msg
      using d by (rule open_capture_stream)
    {
      assume "\<not> audio_recording s"
      then have rec: "snd (toggle_recording h now s) = update_visualization
          (s\<lparr>audio := Some (fresh s), audio_stream := Some (fresh s + 1),
             sample_rate_var := fst cfg, channels_var := snd cfg,
             open_streams := open_streams s @
               [\<lparr>owner = fresh s, sid = fresh s + 1, direction = Input,
                 stream_channels = snd cfg, stream_rate = fst cfg\<rparr>],
             fresh := fresh s + 2, audio_recording := True, recording_start_time := Some now\<rparr>)"
        and rec0: "fst (toggle_recording h now s) = None"
        by (simp_all add: toggle_recording_def start_recording_def cap)
      show "fst (toggle_recording h now s) = None" by (rule rec0)
      show "audio_recording (snd (toggle_recording h now s))"
        by (simp add: rec update_visualization_frame)
      show "audio_stream (snd (toggle_recording h now s)) = Some (fresh s + 1)"
        by (simp add: rec update_visualization_frame)
      show "fresh s + 1 \<in> sid ` set (open_streams (snd (toggle_recording h now s)))"
        by (simp add: rec update_visualization_frame)
    }
    {
      assume "\<not> audio_listening s"
      then have lis: "snd (toggle_listening h s) = update_visualization
          (s\<lparr>audio := Some (fresh s), audio_stream := Some (fresh s + 1),
             sample_rate_var := fst cfg, channels_var := snd cfg,
             open_streams := open_streams s @
               [\<lparr>owner = fresh s, sid = fresh s + 1, direction = Input,
                 stream_channels = snd cfg, stream_rate = fst cfg\<rparr>],
             fresh := fresh s + 2, audio_listening := True\<rparr>)"
        and lis0: "fst (toggle_listening h s) = None"
        by (simp_all add: toggle_listening_def start_listening_def cap)
      show "fst (toggle_listening h s) = None" by (rule lis0)
      show "audio_listening (snd (toggle_listening h s))"
        by (simp add: lis update_visualization_frame)
      show "audio_stream (snd (toggle_listening h s)) = Some (fresh s + 1)"
        by (simp add: lis update_visualization_frame)
      show "fresh s + 1 \<in> sid ` set (open_streams (snd (toggle_listening h s)))"
        by (simp add: lis update_visualization_frame)
    }
  qed
  show ?thesis
    using stop_l stop_r start by (rule conjI [OF _ conjI])
qed

lemma recording_demo_eval:
  "snd recording_demo =
     \<lparr>audio_listening = True, audio_recording = True, audio_playing = False,
      audio = Some 2, audio_stream = Some 3, audio_data_queue = [],
      audio_buffer = \<lparr>maxlen = 10000, items = [7, 8]\<rparr>, recording_start_time = Some 1,
      time_pattern_buffer = \<lparr>maxlen = 50000, items = [7, 8]\<rparr>, pattern_start_time = Some 0,
      selected_device_index = Some 0, sample_rate_var = 48000, channels_var = 2,
      playback_audio = None, playback_stream = None,
      open_streams = [\<lparr>owner = 0, sid = 1, direction = Input,
                        stream_channels = 2, stream_rate = 48000\<rparr>,
                      \<lparr>owner = 2, sid = 3, direction = Input,
                        stream_channels = 2, stream_rate = 48000\<rparr>],
      fresh = 4, after_queue = [UpdateVisualization, UpdateVisualization],
      thread_pc = Exited, thread_bytes = [], device_out = []\<rparr>"
  by (simp add: recording_demo_def listened_demo_eval toggle_recording_def start_recording_def
      open_capture_def negotiate_def demo_host_def demo_info_def py_int_def Let_def
      update_visualization_def deque_extend_def)

theorem toggles_test_only_their_own_flag_witness:
  "audio_listening listened_demo \<and> \<not> audio_recording listened_demo
   \<and> selected_device_index listened_demo = Some 0
   \<and> get_device_info_by_index demo_host 0 = Some demo_info
   \<and> (48000, 2) = fst (negotiate (input_opens demo_host 0) demo_info
                      (sample_rate_var listened_demo) (channels_var listened_demo))
   \<and> input_opens demo_host 0 2 48000
   \<and> toggle_listening demo_host listened_demo = (None, stop_listening listened_demo)
   \<and> \<not> audio_listening (snd (toggle_listening demo_host listened_demo))
   \<and> audio_stream listened_demo = Some 1
   \<and> 1 \<notin> sid ` set (open_streams (snd (toggle_listening demo_host listened_demo)))
   \<and> audio_recording (snd (toggle_recording demo_host 1 listened_demo))
   \<and> audio_stream (snd (toggle_recording demo_host 1 listened_demo)) = Some 3
   \<and> audio_recording (snd recording_demo) \<and> audio_stream (snd recording_demo) = Some 3
   \<and> \<not> audio_recording (snd (toggle_recording demo_host 2 (snd recording_demo)))
   \<and> audio_stream (snd (toggle_recording demo_host 2 (snd recording_demo))) = None
   \<and> 3 \<notin> sid ` set (open_streams (snd (toggle_recording demo_host 2 (snd recording_demo))))"
proof -
  have l: "audio_listening listened_demo" "\<not> audio_recording listened_demo"
    "selected_device_index listened_demo = Some 0" "audio_stream listened_demo = Some 1"
    "sample_rate_var listened_demo = 48000" "channels_var listened_demo = 2"
    "fresh listened_demo = 2"
    by (simp_all add: listened_demo_eval)
  have h: "get_device_info_by_index demo_host 0 = Some demo_info"
    "input_opens demo_host 0 2 48000"
    "fst (negotiate (input_opens demo_host 0) demo_info 48000 2) = (48000, 2)"
    by (simp_all add: negotiate_def demo_host_def)
  have r: "audio_recording (snd recording_demo)" "audio_stream (snd recording_demo) = Some 3"
    by (simp_all add: recording_demo_eval)
  show ?thesis
    using toggles_test_only_their_own_flag [of listened_demo demo_host 1 0 demo_info "(48000, 2)"]
      toggles_test_only_their_own_flag [of "snd recording_demo" demo_host 2 0 demo_info "(48000, 2)"]
      l h r
    by (auto simp: Let_def)
qed

text \<open>
  Claim C5 as stated fails: in the sample session RECORD is pressed while the listening
  stream is open. The start is not refused, and two input streams are open afterwards.
\<close>

theorem second_capture_counterexample:
  "audio_listening listened_demo \<and> audio_stream listened_demo = Some 1
   \<and> spec_single_capture listened_demo
   \<and> fst recording_demo = None
   \<and> audio_recording (snd recording_demo) \<and> audio_listening (snd recording_demo)
   \<and> audio_stream (snd recording_demo) = Some 3
   \<and> map sid (open_streams (snd recording_demo)) = [1, 3]
   \<and> \<not> spec_single_capture (snd recording_demo)"
  by (simp add: recording_demo_def listened_demo_eval toggle_recording_def start_recording_def
      open_capture_def negotiate_def demo_host_def demo_info_def py_int_def Let_def
      update_visualization_def spec_single_capture_def)

section \<open>Playback\<close>

text \<open>
  Claim C6. With an empty clip \<^verbatim>\<open>start_playback\<close> shows its warning and returns at once:
  no PyAudio instance is made, no stream is opened and no attribute changes. The PLAYBACK
  button, pressed while nothing plays, does the same.
\<close>

theorem playback_of_empty_clip_refused:
  "items (audio_buffer s) = [] \<Longrightarrow>
     start_playback h s = (Some (ShowWarning ''No audio recorded to play back!''), s)
     \<and> (\<not> audio_playing s \<longrightarrow>
          toggle_playback h s = (Some (ShowWarning ''No audio recorded to play back!''), s))"
  by (simp add: start_playback_def toggle_playback_def)

theorem playback_of_empty_clip_refused_witness:
  "items (audio_buffer (app_init None)) = [] \<and> \<not> audio_playing (app_init None)
   \<and> toggle_playback demo_host (app_init None)
       = (Some (ShowWarning ''No audio recorded to play back!''), app_init None)
   \<and> open_streams (snd (start_playback demo_host (app_init None))) = []"
  using playback_of_empty_clip_refused [of "app_init None" demo_host]
  by (simp add: app_init_def deque_new_def)



section \<open>Cancelling playback\<close>

lemma length_tobytes: "length (tobytes a) = 2 * length a"
  by (induction a) (simp_all add: tobytes_def)

lemma length_clip_chunks: "length (clip_chunks bytes) = (length bytes + 2047) div 2048"
  by (simp add: clip_chunks_def)

lemma chunk_offset_in_range:
  assumes "k < length (clip_chunks bytes)"
  shows "2048 * k < length bytes"
proof -
  have "k < (length bytes + 2048 - 1) div 2048"
    using assms by (simp add: length_clip_chunks)
  then have "k * 2048 < length bytes"
    by (rule stride_index_in_range [rotated]) simp
  then show ?thesis by (simp add: mult.commute)
qed

lemma take_Suc_clip_chunks:
  assumes "k < length (clip_chunks bytes)"
  shows "take (Suc k) (clip_chunks bytes)
         = take k (clip_chunks bytes) @ [take 2048 (drop (2048 * k) bytes)]"
proof -
  have "clip_chunks bytes ! k = take 2048 (drop (2048 * k) bytes)"
    using assms by (simp add: clip_chunks_def)
  then show ?thesis
    using assms by (simp add: take_Suc_conv_app_nth)
qed

text \<open>The thread, left alone, writes the chunks one after the other.\<close>

lemma thread_writes_chunks:
  assumes "thread_pc s0 = Begin" and "audio_playing s0"
    and "playback_stream s0 = Some st" and "st \<in> sid ` set (open_streams s0)"
    and "k \<le> length (clip_chunks (tobytes (items (audio_buffer s0))))"
  shows "(thread_step ^^ (1 + 2 * k)) s0 =
           s0\<lparr>thread_bytes := tobytes (items (audio_buffer s0)),
              thread_pc := Check (2048 * k),
              device_out := device_out s0 @ take k (clip_chunks (tobytes (items (audio_buffer s0))))\<rparr>"
  using assms(5)
proof (induction k)
  case 0
  show ?case using assms(1) by (simp add: thread_step_def)
next
  case (Suc k)
  let ?bytes = "tobytes (items (audio_buffer s0))"
  let ?sk = "s0\<lparr>thread_bytes := ?bytes, thread_pc := Check (2048 * k),
               device_out := device_out s0 @ take k (clip_chunks ?bytes)\<rparr>"
  have k: "k < length (clip_chunks ?bytes)" using Suc.prems by simp
  have IH: "(thread_step ^^ (1 + 2 * k)) s0 = ?sk" using Suc.IH k by simp
  have off: "2048 * k < length ?bytes" using k by (rule chunk_offset_in_range)
  have one: "thread_step ?sk = ?sk\<lparr>thread_pc := Write (2048 * k)\<rparr>"
    using off assms(2) by (simp add: thread_step_def)
  have two: "thread_step (?sk\<lparr>thread_pc := Write (2048 * k)\<rparr>) =
      s0\<lparr>thread_bytes := ?bytes, thread_pc := Check (2048 * Suc k),
         device_out := device_out s0 @ take (Suc k) (clip_chunks ?bytes)\<rparr>"
    using off assms(3,4) by (simp add: thread_step_def Let_def take_Suc_clip_chunks [OF k])
  have "(thread_step ^^ (1 + 2 * Suc k)) s0 = thread_step (thread_step ((thread_step ^^ (1 + 2 * k)) s0))"
    by simp
  also have "\<dots> = thread_step (thread_step ?sk)" by (simp only: IH)
  also have "\<dots> = s0\<lparr>thread_bytes := ?bytes, thread_pc := Check (2048 * Suc k),
         device_out := device_out s0 @ take (Suc k) (clip_chunks ?bytes)\<rparr>"
    by (simp only: one two)
  finally show ?case .
qed

subsection \<open>The methods and their parts\<close>

text \<open>Run without the thread in between, the parts make up the methods.\<close>

lemma start_playback_parts:
  "start_playback h s =
     (case start_playback_thread h s of
        (None, s1) \<Rightarrow> (None, start_playback_flag s1)
      | (Some m, s1) \<Rightarrow> (Some m, s1))"
  by (simp add: start_playback_def start_playback_thread_def start_playback_flag_def Let_def
      split: option.splits)

lemma stop_playback_parts:
  "stop_playback s = stop_terminate (stop_clear (stop_close (stop_flag s)))"
  by (simp add: stop_playback_def stop_flag_def stop_close_def stop_clear_def stop_terminate_def
      Let_def split: option.splits)

lemma stop_interleaved_alone: "stop_interleaved 0 0 0 0 s = stop_playback s"
  by (simp add: stop_interleaved_def stop_playback_parts)

text \<open>The thread changes none of the attributes the main thread's statements read.\<close>

lemma thread_step_frame:
  "audio_playing (thread_step s) = audio_playing s"
  "playback_stream (thread_step s) = playback_stream s"
  "playback_audio (thread_step s) = playback_audio s"
  "open_streams (thread_step s) = open_streams s"
  by (simp_all add: thread_step_def Let_def split: pc.splits option.splits)

lemma thread_run_frame:
  "audio_playing ((thread_step ^^ n) s) = audio_playing s"
  "playback_stream ((thread_step ^^ n) s) = playback_stream s"
  "playback_audio ((thread_step ^^ n) s) = playback_audio s"
  "open_streams ((thread_step ^^ n) s) = open_streams s"
  by (induction n) (simp_all add: thread_step_frame)

text \<open>The main thread's statements leave the thread's position and the device alone.\<close>

lemma main_frame:
  "thread_pc (start_playback_flag s) = thread_pc s"
  "thread_pc (stop_flag s) = thread_pc s"
  "thread_pc (stop_close s) = thread_pc s"
  "thread_pc (stop_clear s) = thread_pc s"
  "thread_pc (stop_terminate s) = thread_pc s"
  "device_out (start_playback_flag s) = device_out s"
  "device_out (stop_flag s) = device_out s"
  "device_out (stop_close s) = device_out s"
  "device_out (stop_clear s) = device_out s"
  "device_out (stop_terminate s) = device_out s"
  "after_queue (start_playback_flag s) = after_queue s"
  "after_queue (stop_flag s) = after_queue s"
  "after_queue (stop_close s) = after_queue s"
  "after_queue (stop_clear s) = after_queue s"
  "after_queue (stop_terminate s) = after_queue s"
  by (simp_all add: start_playback_flag_def stop_flag_def stop_close_def stop_clear_def
      stop_terminate_def split: option.splits)

lemma stop_steps_flag:
  "\<not> audio_playing (stop_flag s)"
  "audio_playing (stop_close s) = audio_playing s"
  "audio_playing (stop_clear s) = audio_playing s"
  "audio_playing (stop_terminate s) = audio_playing s"
  by (simp_all add: stop_flag_def stop_close_def stop_clear_def stop_terminate_def
      split: option.splits)

subsection \<open>A silent thread stays silent\<close>

lemma silent_thread_step:
  assumes "silent s"
  shows "silent (thread_step s)" and "device_out (thread_step s) = device_out s"
  using assms
  by (auto simp: silent_def thread_step_def Let_def split: pc.splits option.splits)

lemma silent_thread_run:
  assumes "silent s"
  shows "silent ((thread_step ^^ n) s) \<and> device_out ((thread_step ^^ n) s) = device_out s"
proof (induction n)
  case 0
  show ?case using assms by simp
next
  case (Suc n)
  then show ?case
    using silent_thread_step [of "(thread_step ^^ n) s"] by simp
qed

lemma silent_stop_close: "silent s \<Longrightarrow> silent (stop_close s)"
  by (auto simp: silent_def stop_close_def close_stream_def split: option.splits)

lemma silent_stop_clear: "silent s \<Longrightarrow> silent (stop_clear s)"
  by (auto simp: silent_def stop_clear_def split: option.splits)

lemma silent_stop_terminate: "silent s \<Longrightarrow> silent (stop_terminate s)"
  by (auto simp: silent_def stop_terminate_def terminate_def split: option.splits)

lemma silent_rest:
  assumes "silent s"
  shows "device_out ((thread_step ^^ d) (stop_terminate ((thread_step ^^ c) (stop_clear
           ((thread_step ^^ b) (stop_close ((thread_step ^^ a) s))))))) = device_out s"
proof -
  let ?s1 = "(thread_step ^^ a) s"
  let ?s2 = "(thread_step ^^ b) (stop_close ?s1)"
  let ?s3 = "(thread_step ^^ c) (stop_clear ?s2)"
  have 1: "silent ?s1" "device_out ?s1 = device_out s"
    using silent_thread_run [OF assms, of a] by simp_all
  have 2: "silent ?s2" "device_out ?s2 = device_out s"
    using silent_thread_run [OF silent_stop_close [OF 1(1)], of b] 1(2)
    by (simp_all add: main_frame)
  have 3: "silent ?s3" "device_out ?s3 = device_out s"
    using silent_thread_run [OF silent_stop_clear [OF 2(1)], of c] 2(2)
    by (simp_all add: main_frame)
  show ?thesis
    using silent_thread_run [OF silent_stop_terminate [OF 3(1)], of d] 3(2)
    by (simp add: main_frame)
qed

text \<open>A stop asked for while the thread is not between the test and the write.\<close>

lemma stop_before_test:
  assumes "\<forall>i. thread_pc s \<noteq> Write i"
  shows "device_out (stop_interleaved a b c d s) = device_out s"
proof -
  have "silent (stop_flag s)"
    using assms by (simp add: silent_def main_frame stop_steps_flag)
  from silent_rest [OF this, of d c b a] show ?thesis
    by (simp add: stop_interleaved_def main_frame)
qed

text \<open>A stop asked for between the test and the write.\<close>

lemma stop_after_test:
  assumes "thread_pc s = Write i" and "i < length (thread_bytes s)"
    and "playback_stream s = Some st" and "st \<in> sid ` set (open_streams s)"
  shows "device_out (stop_interleaved a b c d s)
         = (if a = 0 then device_out s
            else device_out s @ [take 2048 (drop i (thread_bytes s))])"
proof (cases a)
  case 0
  have "silent (stop_close (stop_flag s))"
    using assms(1,3)
    by (auto simp: silent_def stop_close_def stop_flag_def close_stream_def)
  from silent_rest [OF silent_stop_close [OF this], of d c b 0] 0 show ?thesis
    by (simp add: stop_interleaved_def main_frame stop_close_def stop_flag_def
        close_stream_def assms(3))
next
  case (Suc a')
  let ?w = "thread_step (stop_flag s)"
  have w: "device_out ?w = device_out s @ [take 2048 (drop i (thread_bytes s))]"
    "thread_pc ?w = Check (i + 2048)" "\<not> audio_playing ?w"
    using assms by (simp_all add: thread_step_def stop_flag_def Let_def)
  have "silent ?w" using w(2,3) by (simp add: silent_def)
  from silent_rest [OF this, of d c b a'] have
    "device_out (stop_interleaved a b c d s) = device_out ?w"
    by (simp add: stop_interleaved_def Suc funpow_swap1)
  then show ?thesis using w(1) Suc by simp
qed

subsection \<open>What the main thread leaves behind\<close>

lemma stop_steps_stream:
  "playback_stream (stop_flag s) = playback_stream s"
  "playback_stream (stop_close s) = playback_stream s"
  "playback_stream (stop_clear s) = None"
  "playback_stream (stop_terminate s) = playback_stream s"
  by (simp_all add: stop_flag_def stop_close_def stop_clear_def stop_terminate_def
      split: option.splits)

lemma stop_terminate_audio: "playback_audio (stop_terminate s) = None"
  by (simp add: stop_terminate_def split: option.splits)

lemma stop_interleaved_main:
  "\<not> audio_playing (stop_interleaved a b c d s)"
  "playback_stream (stop_interleaved a b c d s) = None"
  "playback_audio (stop_interleaved a b c d s) = None"
  by (simp_all add: stop_interleaved_def thread_run_frame stop_steps_flag stop_steps_stream
      stop_terminate_audio)

lemma stop_close_releases:
  "playback_stream s = Some st \<Longrightarrow> st \<notin> sid ` set (open_streams (stop_close s))"
  by (auto simp: stop_close_def close_stream_def)

lemma stop_steps_keep_closed:
  "st \<notin> sid ` set (open_streams s) \<Longrightarrow> st \<notin> sid ` set (open_streams (stop_clear s))"
  "st \<notin> sid ` set (open_streams s) \<Longrightarrow> st \<notin> sid ` set (open_streams (stop_terminate s))"
  by (auto simp: stop_clear_def stop_terminate_def terminate_def split: option.splits)

lemma stop_interleaved_releases:
  assumes "playback_stream s = Some st"
  shows "st \<notin> sid ` set (open_streams (stop_interleaved a b c d s))"
proof -
  let ?s1 = "(thread_step ^^ a) (stop_flag s)"
  have "playback_stream ?s1 = Some st"
    using assms by (simp add: thread_run_frame stop_steps_stream)
  then have "st \<notin> sid ` set (open_streams (stop_close ?s1))"
    by (rule stop_close_releases)
  then have "st \<notin> sid ` set (open_streams ((thread_step ^^ b) (stop_close ?s1)))"
    by (simp add: thread_run_frame)
  then have "st \<notin> sid ` set (open_streams (stop_clear ((thread_step ^^ b) (stop_close ?s1))))"
    by (rule stop_steps_keep_closed)
  then have "st \<notin> sid ` set (open_streams ((thread_step ^^ c)
      (stop_clear ((thread_step ^^ b) (stop_close ?s1)))))"
    by (simp add: thread_run_frame)
  then have "st \<notin> sid ` set (open_streams (stop_terminate ((thread_step ^^ c)
      (stop_clear ((thread_step ^^ b) (stop_close ?s1))))))"
    by (rule stop_steps_keep_closed)
  then show ?thesis
    by (simp add: stop_interleaved_def thread_run_frame)
qed

subsection \<open>The thread leaves its loop\<close>

lemma steps_left_thread_step:
  assumes "\<not> audio_playing s"
  shows "steps_left (thread_pc (thread_step s)) \<le> steps_left (thread_pc s) - 1"
  using assms by (simp add: thread_step_def Let_def split: pc.splits option.splits)

lemma steps_left_thread_run:
  assumes "\<not> audio_playing s"
  shows "steps_left (thread_pc ((thread_step ^^ n) s)) \<le> steps_left (thread_pc s) - n"
proof (induction n)
  case 0
  show ?case by simp
next
  case (Suc n)
  have "\<not> audio_playing ((thread_step ^^ n) s)"
    using assms by (simp add: thread_run_frame)
  from steps_left_thread_step [OF this] Suc show ?case by simp
qed

lemma steps_left_le_3: "steps_left x \<le> 3"
  by (cases x) simp_all

lemma steps_left_0: "steps_left x = 0 \<longleftrightarrow> x = Exited"
  by (cases x) simp_all

lemma stop_interleaved_exits:
  assumes "3 \<le> a + b + c + d"
  shows "thread_pc (stop_interleaved a b c d s) = Exited"
proof -
  let ?s0 = "stop_flag s"
  let ?s1 = "stop_close ((thread_step ^^ a) ?s0)"
  let ?s2 = "stop_clear ((thread_step ^^ b) ?s1)"
  let ?s3 = "stop_terminate ((thread_step ^^ c) ?s2)"
  have f0: "\<not> audio_playing ?s0" by (simp add: stop_steps_flag)
  have f1: "\<not> audio_playing ?s1" by (simp add: stop_steps_flag thread_run_frame)
  have f2: "\<not> audio_playing ?s2" by (simp add: stop_steps_flag thread_run_frame)
  have f3: "\<not> audio_playing ?s3" by (simp add: stop_steps_flag thread_run_frame)
  have 1: "steps_left (thread_pc ?s1) \<le> 3 - a"
    using steps_left_thread_run [OF f0, of a] steps_left_le_3 [of "thread_pc ?s0"]
    by (simp add: main_frame)
  have 2: "steps_left (thread_pc ?s2) \<le> 3 - a - b"
    using steps_left_thread_run [OF f1, of b] 1 by (simp add: main_frame)
  have 3: "steps_left (thread_pc ?s3) \<le> 3 - a - b - c"
    using steps_left_thread_run [OF f2, of c] 2 by (simp add: main_frame)
  have "steps_left (thread_pc ((thread_step ^^ d) ?s3)) \<le> 3 - a - b - c - d"
    using steps_left_thread_run [OF f3, of d] 3 by simp
  then have "steps_left (thread_pc (stop_interleaved a b c d s)) = 0"
    using assms by (simp add: stop_interleaved_def)
  then show ?thesis by (simp only: steps_left_0)
qed

lemma handed_over_thread_step: "handed_over s \<Longrightarrow> handed_over (thread_step s)"
  by (auto simp: handed_over_def thread_step_def Let_def split: pc.splits option.splits)

lemma handed_over_thread_run: "handed_over s \<Longrightarrow> handed_over ((thread_step ^^ n) s)"
  by (induction n) (simp_all add: handed_over_thread_step)

lemma handed_over_main:
  "handed_over s \<Longrightarrow> handed_over (start_playback_flag s)"
  "handed_over s \<Longrightarrow> handed_over (stop_flag s)"
  "handed_over s \<Longrightarrow> handed_over (stop_close s)"
  "handed_over s \<Longrightarrow> handed_over (stop_clear s)"
  "handed_over s \<Longrightarrow> handed_over (stop_terminate s)"
  by (simp_all add: handed_over_def main_frame)

lemma handed_over_stop_interleaved:
  "handed_over s \<Longrightarrow> handed_over (stop_interleaved a b c d s)"
  by (simp add: stop_interleaved_def handed_over_thread_run handed_over_main)

lemma handed_over_playing_after:
  "handed_over s \<Longrightarrow> handed_over (playing_after p q s)"
  by (simp add: playing_after_def handed_over_thread_run handed_over_main)

subsection \<open>From the start of playback to the stop\<close>

lemma start_playback_thread_clip:
  assumes "fst (start_playback_thread h s) = None"
  shows "items (audio_buffer s) \<noteq> []"
proof
  assume "items (audio_buffer s) = []"
  then have "fst (start_playback_thread h s) = Some (ShowWarning ''No audio recorded to play back!'')"
    by (simp add: start_playback_thread_def)
  with assms show False by simp
qed

lemma start_playback_thread_started:
  assumes "fst (start_playback_thread h s) = None"
  shows "snd (start_playback_thread h s) =
           s\<lparr>playback_audio := Some (fresh s), playback_stream := Some (fresh s + 1),
             open_streams := open_streams s @
               [\<lparr>owner = fresh s, sid = fresh s + 1, direction = Output,
                 stream_channels = 1, stream_rate = 16000\<rparr>],
             fresh := fresh s + 2, thread_pc := Begin\<rparr>"
proof -
  have clip: "length (items (audio_buffer s)) \<noteq> 0"
    using start_playback_thread_clip [OF assms] by simp
  have dev: "default_output_device h \<noteq> None"
  proof
    assume "default_output_device h = None"
    then have "fst (start_playback_thread h s) = Some (ShowError ''Failed to start playback'')"
      using clip by (simp add: start_playback_thread_def Let_def)
    with assms show False by simp
  qed
  then obtain output_device where od: "default_output_device h = Some output_device"
    by blast
  have opens: "output_opens h output_device 1 16000"
  proof (rule ccontr)
    assume "\<not> output_opens h output_device 1 16000"
    then have "fst (start_playback_thread h s) = Some (ShowError ''Failed to start playback'')"
      using clip od by (simp add: start_playback_thread_def Let_def)
    with assms show False by simp
  qed
  show ?thesis
    using clip od opens by (simp add: start_playback_thread_def Let_def)
qed

lemma flag_after_first_step:
  assumes "thread_pc s = Begin"
  shows "start_playback_flag (thread_step s) = thread_step (start_playback_flag s)"
  using assms by (simp add: thread_step_def start_playback_flag_def)

lemma playing_after_flag_first:
  assumes "thread_pc s = Begin" and "p \<le> 1"
  shows "playing_after p q s = (thread_step ^^ (p + q)) (start_playback_flag s)"
proof (cases "p = 0")
  case True
  then show ?thesis by (simp add: playing_after_def)
next
  case False
  with assms(2) have p: "p = 1" by simp
  have "playing_after p q s = (thread_step ^^ q) (thread_step (start_playback_flag s))"
    by (simp add: playing_after_def p flag_after_first_step [OF assms(1)])
  also have "\<dots> = (thread_step ^^ (p + q)) (start_playback_flag s)"
    by (simp add: p funpow_swap1)
  finally show ?thesis .
qed

text \<open>The thread tested the flag before the main thread had set it.\<close>

lemma early_thread_writes_nothing:
  assumes "thread_pc s = Begin" and "\<not> audio_playing s" and "2 \<le> p"
  shows "silent (playing_after p q s) \<and> device_out (playing_after p q s) = device_out s
         \<and> (thread_pc (playing_after p q s) = Finish \<or> thread_pc (playing_after p q s) = Exited)"
proof -
  have two: "thread_pc ((thread_step ^^ 2) s) = Finish \<or> thread_pc ((thread_step ^^ 2) s) = Exited"
    "device_out ((thread_step ^^ 2) s) = device_out s"
    using assms(1,2) by (auto simp: numeral_2_eq_2 thread_step_def Let_def)
  have gone_step: "thread_pc (thread_step x) = Finish \<or> thread_pc (thread_step x) = Exited"
    if "thread_pc x = Finish \<or> thread_pc x = Exited" for x
    using that by (auto simp: thread_step_def)
  have gone_run: "thread_pc ((thread_step ^^ n) x) = Finish \<or> thread_pc ((thread_step ^^ n) x) = Exited"
    if "thread_pc x = Finish \<or> thread_pc x = Exited" for x n
    using that by (induction n) (simp_all add: gone_step)
  have sil: "silent x" if "thread_pc x = Finish \<or> thread_pc x = Exited" for x
    using that by (auto simp: silent_def)
  let ?s2 = "(thread_step ^^ 2) s"
  have "p = (p - 2) + 2" using assms(3) by simp
  then have "(thread_step ^^ p) s = (thread_step ^^ ((p - 2) + 2)) s" by (rule arg_cong)
  then have sp: "(thread_step ^^ p) s = (thread_step ^^ (p - 2)) ?s2"
    by (simp only: funpow_add o_apply)
  have g1: "thread_pc ((thread_step ^^ p) s) = Finish \<or> thread_pc ((thread_step ^^ p) s) = Exited"
    unfolding sp by (rule gone_run [OF two(1)])
  have d1: "device_out ((thread_step ^^ p) s) = device_out s"
    unfolding sp using silent_thread_run [OF sil [OF two(1)], of "p - 2"] two(2) by simp
  let ?f = "start_playback_flag ((thread_step ^^ p) s)"
  have g2: "thread_pc ?f = Finish \<or> thread_pc ?f = Exited"
    using g1 by (simp add: main_frame)
  have g3: "thread_pc ((thread_step ^^ q) ?f) = Finish \<or> thread_pc ((thread_step ^^ q) ?f) = Exited"
    by (rule gone_run [OF g2])
  have d3: "device_out ((thread_step ^^ q) ?f) = device_out s"
    using silent_thread_run [OF sil [OF g2], of q] d1 by (simp add: main_frame)
  show ?thesis
    using g3 d3 sil [OF g3] by (simp add: playing_after_def)
qed

lemma silent_stop_flag: "silent s \<Longrightarrow> silent (stop_flag s)"
  by (auto simp: silent_def stop_flag_def split: option.splits)

lemma stop_when_silent:
  assumes "silent s"
  shows "device_out (stop_interleaved a b c d s) = device_out s"
  using silent_rest [OF silent_stop_flag [OF assms], of d c b a]
  by (simp add: stop_interleaved_def main_frame)


lemma playing_after_stream:
  "playback_stream (playing_after p q s) = playback_stream s"
  by (simp add: playing_after_def thread_run_frame start_playback_flag_def)

text \<open>The state when the thread stands before the test for chunk \<open>k + 1\<close>, and after it.\<close>

lemma asked_before_test:
  assumes "fst (start_playback_thread h s) = None" and "p \<le> 1"
    and "k < length (clip_chunks (tobytes (items (audio_buffer s))))" and "p + q = 1 + 2 * k"
  shows "playing_after p q (snd (start_playback_thread h s)) =
           (start_playback_flag (snd (start_playback_thread h s)))
             \<lparr>thread_bytes := tobytes (items (audio_buffer s)),
              thread_pc := Check (2048 * k),
              device_out := device_out s @ take k (clip_chunks (tobytes (items (audio_buffer s))))\<rparr>"
proof -
  let ?t = "snd (start_playback_thread h s)"
  let ?s0 = "start_playback_flag ?t"
  have t: "?t = s\<lparr>playback_audio := Some (fresh s), playback_stream := Some (fresh s + 1),
             open_streams := open_streams s @
               [\<lparr>owner = fresh s, sid = fresh s + 1, direction = Output,
                 stream_channels = 1, stream_rate = 16000\<rparr>],
             fresh := fresh s + 2, thread_pc := Begin\<rparr>"
    using assms(1) by (rule start_playback_thread_started)
  have "playing_after p q ?t = (thread_step ^^ (p + q)) ?s0"
    using assms(2) by (intro playing_after_flag_first) (simp add: t)
  also have "\<dots> = (thread_step ^^ (1 + 2 * k)) ?s0"
    by (simp only: assms(4))
  also have "\<dots> = ?s0\<lparr>thread_bytes := tobytes (items (audio_buffer ?s0)),
              thread_pc := Check (2048 * k),
              device_out := device_out ?s0 @
                take k (clip_chunks (tobytes (items (audio_buffer ?s0))))\<rparr>"
    using assms(3)
    by (intro thread_writes_chunks [where st = "fresh s + 1"])
       (simp_all add: t start_playback_flag_def)
  finally show ?thesis
    by (simp add: t start_playback_flag_def)
qed

lemma asked_after_test:
  assumes "fst (start_playback_thread h s) = None" and "p \<le> 1"
    and "k < length (clip_chunks (tobytes (items (audio_buffer s))))" and "p + q = 2 + 2 * k"
  shows "playing_after p q (snd (start_playback_thread h s)) =
           (start_playback_flag (snd (start_playback_thread h s)))
             \<lparr>thread_bytes := tobytes (items (audio_buffer s)),
              thread_pc := Write (2048 * k),
              device_out := device_out s @ take k (clip_chunks (tobytes (items (audio_buffer s))))\<rparr>"
proof -
  let ?t = "snd (start_playback_thread h s)"
  have "0 < q" using assms(2,4) by simp
  then obtain q' where q: "q = Suc q'" by (cases q) simp_all
  have pq: "p + q' = 1 + 2 * k" using assms(4) q by simp
  have off: "2048 * k < length (tobytes (items (audio_buffer s)))"
    using assms(3) by (rule chunk_offset_in_range)
  have "playing_after p q ?t = thread_step (playing_after p q' ?t)"
    by (simp add: playing_after_def q)
  also have "\<dots> = thread_step ((start_playback_flag ?t)
             \<lparr>thread_bytes := tobytes (items (audio_buffer s)),
              thread_pc := Check (2048 * k),
              device_out := device_out s @ take k (clip_chunks (tobytes (items (audio_buffer s))))\<rparr>)"
    by (simp only: asked_before_test [OF assms(1,2,3) pq])
  also have "\<dots> = (start_playback_flag ?t)
             \<lparr>thread_bytes := tobytes (items (audio_buffer s)),
              thread_pc := Write (2048 * k),
              device_out := device_out s @ take k (clip_chunks (tobytes (items (audio_buffer s))))\<rparr>"
    using off by (simp add: thread_step_def start_playback_flag_def)
  finally show ?thesis .
qed

text \<open>The chunk that gets through when the stop falls between the test and the write.\<close>

lemma stop_between_test_and_write:
  assumes "fst (start_playback_thread h s) = None" and "p \<le> 1"
    and "k < length (clip_chunks (tobytes (items (audio_buffer s))))" and "p + q = 2 + 2 * k"
  shows "device_out (playing_after p q (snd (start_playback_thread h s)))
           = device_out s @ take k (clip_chunks (tobytes (items (audio_buffer s))))"
    and "device_out (stop_interleaved a b c d (playing_after p q (snd (start_playback_thread h s))))
           = device_out s @ take (if a = 0 then k else Suc k)
               (clip_chunks (tobytes (items (audio_buffer s))))"
proof -
  let ?chunks = "clip_chunks (tobytes (items (audio_buffer s)))"
  let ?t = "snd (start_playback_thread h s)"
  let ?asked = "playing_after p q ?t"
  have t: "?t = s\<lparr>playback_audio := Some (fresh s), playback_stream := Some (fresh s + 1),
             open_streams := open_streams s @
               [\<lparr>owner = fresh s, sid = fresh s + 1, direction = Output,
                 stream_channels = 1, stream_rate = 16000\<rparr>],
             fresh := fresh s + 2, thread_pc := Begin\<rparr>"
    using assms(1) by (rule start_playback_thread_started)
  have a: "?asked = (start_playback_flag ?t)
             \<lparr>thread_bytes := tobytes (items (audio_buffer s)),
              thread_pc := Write (2048 * k),
              device_out := device_out s @ take k ?chunks\<rparr>"
    using assms by (rule asked_after_test)
  show "device_out ?asked = device_out s @ take k ?chunks"
    by (simp add: a)
  have off: "2048 * k < length (tobytes (items (audio_buffer s)))"
    using assms(3) by (rule chunk_offset_in_range)
  have pc: "thread_pc ?asked = Write (2048 * k)"
    and bytes: "thread_bytes ?asked = tobytes (items (audio_buffer s))"
    by (simp_all add: a)
  have stream: "playback_stream ?asked = Some (fresh s + 1)"
    by (simp add: playing_after_stream t)
  have "open_streams ?asked = open_streams ?t"
    by (simp add: playing_after_def thread_run_frame start_playback_flag_def)
  then have opn: "fresh s + 1 \<in> sid ` set (open_streams ?asked)"
    by (simp add: t)
  have off': "2048 * k < length (thread_bytes ?asked)"
    using off by (simp only: bytes)
  have "device_out (stop_interleaved a b c d ?asked) =
        (if a = 0 then device_out ?asked
         else device_out ?asked @ [take 2048 (drop (2048 * k) (thread_bytes ?asked))])"
    using pc off' stream opn by (rule stop_after_test)
  then show "device_out (stop_interleaved a b c d ?asked)
           = device_out s @ take (if a = 0 then k else Suc k) ?chunks"
    by (simp add: a take_Suc_clip_chunks [OF assms(3)])
qed

text \<open>
  Claim C7, as amended. Playback has started; the thread took \<open>p\<close> steps before the
  playing flag was set and \<open>q\<close> after, and then the user stops playback, the thread
  taking \<open>a\<close>, \<open>b\<close>, \<open>c\<close> and \<open>d\<close> steps between the statements of \<^verbatim>\<open>stop_playback\<close>.

  If the thread has written \<open>k\<close> chunks and stands before the test of the flag for the
  next one, the device receives those \<open>k\<close> chunks and no other. If it stands between the
  test and the write, the next chunk is written exactly when the thread moves before the
  stream is closed, and no chunk after that one. If the thread tested the flag before the
  main thread had set it, nothing is written at all. In every case the playing flag is
  down, the stream and PyAudio attributes are cleared and the output stream is closed
  when \<^verbatim>\<open>stop_playback\<close> has returned, and after three steps the thread has left its
  loop and asked for \<^verbatim>\<open>_playback_finished\<close>, which keeps the flag down.
\<close>

theorem stop_request_ends_playback:
  assumes "fst (start_playback_thread h s) = None"
  shows "(let chunks = clip_chunks (tobytes (items (audio_buffer s)));
              asked = playing_after p q (snd (start_playback_thread h s));
              final = stop_interleaved a b c d asked
          in (p \<le> 1 \<and> k < length chunks \<and> p + q = 1 + 2 * k \<longrightarrow>
                device_out asked = device_out s @ take k chunks
                \<and> device_out final = device_out s @ take k chunks)
           \<and> (p \<le> 1 \<and> k < length chunks \<and> p + q = 2 + 2 * k \<longrightarrow>
                device_out asked = device_out s @ take k chunks
                \<and> device_out final = device_out s @ take (if a = 0 then k else Suc k) chunks)
           \<and> (2 \<le> p \<and> \<not> audio_playing s \<longrightarrow>
                device_out asked = device_out s \<and> device_out final = device_out s)
           \<and> \<not> audio_playing final
           \<and> playback_stream final = None \<and> playback_audio final = None
           \<and> fresh s + 1 \<notin> sid ` set (open_streams final)
           \<and> (3 \<le> a + b + c + d \<longrightarrow>
                thread_pc final = Exited \<and> PlaybackFinished \<in> set (after_queue final)
                \<and> \<not> audio_playing (playback_finished final)))"
proof -
  let ?chunks = "clip_chunks (tobytes (items (audio_buffer s)))"
  let ?t = "snd (start_playback_thread h s)"
  define asked where "asked = playing_after p q ?t"
  define final where "final = stop_interleaved a b c d asked"
  have t: "?t = s\<lparr>playback_audio := Some (fresh s), playback_stream := Some (fresh s + 1),
             open_streams := open_streams s @
               [\<lparr>owner = fresh s, sid = fresh s + 1, direction = Output,
                 stream_channels = 1, stream_rate = 16000\<rparr>],
             fresh := fresh s + 2, thread_pc := Begin\<rparr>"
    using assms by (rule start_playback_thread_started)
  have before: "device_out asked = device_out s @ take k ?chunks
      \<and> device_out final = device_out s @ take k ?chunks"
    if "p \<le> 1 \<and> k < length ?chunks \<and> p + q = 1 + 2 * k"
  proof -
    have a: "asked = (start_playback_flag ?t)
             \<lparr>thread_bytes := tobytes (items (audio_buffer s)),
              thread_pc := Check (2048 * k),
              device_out := device_out s @ take k ?chunks\<rparr>"
      unfolding asked_def using assms that by (intro asked_before_test) simp_all
    have "\<forall>i. thread_pc asked \<noteq> Write i" by (simp add: a)
    then have "device_out final = device_out asked"
      unfolding final_def by (rule stop_before_test)
    then show ?thesis by (simp add: a)
  qed
  have after: "device_out asked = device_out s @ take k ?chunks
      \<and> device_out final = device_out s @ take (if a = 0 then k else Suc k) ?chunks"
    if "p \<le> 1 \<and> k < length ?chunks \<and> p + q = 2 + 2 * k"
    unfolding final_def asked_def
    using stop_between_test_and_write(1) [where h = h and s = s and p = p and k = k and q = q]
      stop_between_test_and_write(2) [where h = h and s = s and p = p and k = k and q = q
        and a = a and b = b and c = c and d = d] assms that by simp
  have early: "device_out asked = device_out s \<and> device_out final = device_out s"
    if "2 \<le> p \<and> \<not> audio_playing s"
  proof -
    have e: "silent asked \<and> device_out asked = device_out ?t"
      unfolding asked_def using that
      by (intro conjI early_thread_writes_nothing [THEN conjunct1]
          early_thread_writes_nothing [THEN conjunct2, THEN conjunct1]) (simp_all add: t)
    then have "device_out final = device_out asked"
      unfolding final_def by (intro stop_when_silent) simp
    then show ?thesis using e by (simp add: t)
  qed
  have stream: "playback_stream asked = Some (fresh s + 1)"
    by (simp add: asked_def playing_after_stream t)
  have rel: "fresh s + 1 \<notin> sid ` set (open_streams final)"
    unfolding final_def using stream by (rule stop_interleaved_releases)
  have "handed_over ?t" by (simp add: handed_over_def t)
  then have ho: "handed_over final"
    unfolding final_def asked_def
    by (intro handed_over_stop_interleaved handed_over_playing_after)
  have exits: "thread_pc final = Exited \<and> PlaybackFinished \<in> set (after_queue final)
      \<and> \<not> audio_playing (playback_finished final)" if "3 \<le> a + b + c + d"
  proof -
    have "thread_pc final = Exited"
      unfolding final_def using that by (rule stop_interleaved_exits)
    then show ?thesis using ho by (simp add: handed_over_def playback_finished_def)
  qed
  show ?thesis
    unfolding Let_def asked_def [symmetric] final_def [symmetric]
    using before after early rel exits
    by (simp add: final_def stop_interleaved_main)
qed


lemma clip_demo_start:
  "fst (start_playback_thread demo_host clip_demo) = None"
  "length (clip_chunks (tobytes (items (audio_buffer clip_demo)))) = 3"
  "device_out clip_demo = []" "\<not> audio_playing clip_demo"
  by (simp_all add: clip_demo_def listened_demo_eval start_playback_thread_def demo_host_def
      Let_def length_clip_chunks length_tobytes)

theorem stop_request_ends_playback_witness:
  "fst (start_playback_thread demo_host clip_demo) = None
   \<and> length (clip_chunks (tobytes (items (audio_buffer clip_demo)))) = 3
   \<and> \<not> audio_playing clip_demo
   \<and> device_out (stop_interleaved 1 1 0 1
        (playing_after 1 2 (snd (start_playback_thread demo_host clip_demo))))
      = take 1 (clip_chunks (tobytes (items (audio_buffer clip_demo))))
   \<and> thread_pc (stop_interleaved 1 1 0 1
        (playing_after 1 2 (snd (start_playback_thread demo_host clip_demo)))) = Exited
   \<and> device_out (stop_interleaved 0 1 1 1
        (playing_after 0 4 (snd (start_playback_thread demo_host clip_demo))))
      = take 1 (clip_chunks (tobytes (items (audio_buffer clip_demo))))
   \<and> device_out (stop_interleaved 1 1 1 1
        (playing_after 2 3 (snd (start_playback_thread demo_host clip_demo)))) = []"
  using stop_request_ends_playback [OF clip_demo_start(1),
      where p = 1 and q = 2 and k = 1 and a = 1 and b = 1 and c = 0 and d = 1]
    stop_request_ends_playback [OF clip_demo_start(1),
      where p = 0 and q = 4 and k = 1 and a = 0 and b = 1 and c = 1 and d = 1]
    stop_request_ends_playback [OF clip_demo_start(1),
      where p = 2 and q = 3 and k = 1 and a = 1 and b = 1 and c = 1 and d = 1]
    clip_demo_start
  by (simp add: Let_def)

text \<open>
  Claim C7 as stated fails. In the sample session with the clip of three chunks, the
  thread has written the first chunk and passed the test for the second when the user
  stops playback; it takes one step before the main thread reaches \<^verbatim>\<open>stop_stream()\<close>.
  The second chunk is written after the stop was asked for.
\<close>

theorem chunk_written_after_stop_counterexample:
  "fst (start_playback_thread demo_host clip_demo) = None
   \<and> length (clip_chunks (tobytes (items (audio_buffer clip_demo)))) = 3
   \<and> device_out (playing_after 0 4 (snd (start_playback_thread demo_host clip_demo)))
      = take 1 (clip_chunks (tobytes (items (audio_buffer clip_demo))))
   \<and> \<not> audio_playing (stop_flag (playing_after 0 4 (snd (start_playback_thread demo_host clip_demo))))
   \<and> device_out (stop_interleaved 1 0 0 3
        (playing_after 0 4 (snd (start_playback_thread demo_host clip_demo))))
      = take 2 (clip_chunks (tobytes (items (audio_buffer clip_demo))))
   \<and> length (take 2 (clip_chunks (tobytes (items (audio_buffer clip_demo))))) = 2"
  using stop_between_test_and_write(1) [OF clip_demo_start(1), where p = 0 and q = 4 and k = 1]
    stop_between_test_and_write(2) [OF clip_demo_start(1),
      where p = 0 and q = 4 and k = 1 and a = 1 and b = 0 and c = 0 and d = 3] clip_demo_start
  by (simp add: stop_steps_flag numeral_2_eq_2)

end
